theory Spec2Isabelle
  imports Complex_Main "HOL-Library.Word"
begin

section \<open>JavaScript strings\<close>

text \<open>
  A JavaScript string is a sequence of UTF-16 code units: \<open>s.length\<close> counts code
  units, \<open>s[i]\<close> reads one, and a regular expression without the \<open>u\<close> flag matches
  code unit by code unit. A string is therefore a list of 16-bit words.
  \<open>str\<close> writes an ASCII literal as such a string.
\<close>

type_synonym code_unit = "16 word"
type_synonym jsstring = "code_unit list"

definition str :: "string \<Rightarrow> jsstring" where
  "str s = map of_char s"

text \<open>The regular expression class \<open>\d\<close>: the code units of \<open>0\<close> to \<open>9\<close>.\<close>

definition is_digit :: "code_unit \<Rightarrow> bool" where
  "is_digit c = (0x30 \<le> c \<and> c \<le> 0x39)"

text \<open>\<open>s.replace(/\D/g, '')\<close>: every code unit that is not a digit is removed.\<close>

definition replace_non_digits :: "jsstring \<Rightarrow> jsstring" where
  "replace_non_digits s = filter is_digit s"

text \<open>
  \<open>/^(\d)\1{n}$/.test(s)\<close>: a digit followed by exactly \<open>n\<close> copies of itself, and
  nothing else.
\<close>

definition repeated_digit :: "nat \<Rightarrow> jsstring \<Rightarrow> bool" where
  "repeated_digit n s = (case s of [] \<Rightarrow> False | c # cs \<Rightarrow> is_digit c \<and> cs = replicate n c)"

text \<open>\<open>s.substring(0, n)\<close>: the first \<open>n\<close> code units (all of \<open>s\<close> when it is shorter).\<close>

definition substring0 :: "jsstring \<Rightarrow> nat \<Rightarrow> jsstring" where
  "substring0 s n = take n s"

section \<open>Small integers with NaN\<close>

text \<open>
  The check digit arithmetic works on JavaScript numbers that are sums of at most
  thirteen products of a decimal digit and a weight below 12: integers far below
  \<open>2^53\<close>, on which the floating point operations are exact. They are modelled as
  natural numbers, and \<open>NaN\<close> as \<open>None\<close>.

  \<open>parseInt\<close> of a string of one code unit is the digit's value, and \<open>NaN\<close> for any
  other code unit. \<open>parseInt(s[i])\<close> with \<open>i\<close> out of range parses \<open>undefined\<close>, which
  is \<open>NaN\<close> too.
\<close>

definition digit_value :: "code_unit \<Rightarrow> nat" where
  "digit_value c = unat c - 48"

definition parseInt_unit :: "code_unit \<Rightarrow> nat option" where
  "parseInt_unit c = (if is_digit c then Some (digit_value c) else None)"

definition parseInt_at :: "jsstring \<Rightarrow> nat \<Rightarrow> nat option" where
  "parseInt_at s i = (if i < length s then parseInt_unit (s ! i) else None)"

text \<open>\<open>pesos[i]\<close>: \<open>undefined\<close> out of range, which makes the product \<open>NaN\<close>.\<close>

definition peso_at :: "nat list \<Rightarrow> nat \<Rightarrow> nat option" where
  "peso_at pesos i = (if i < length pesos then Some (pesos ! i) else None)"

definition nan_mul :: "nat option \<Rightarrow> nat option \<Rightarrow> nat option" where
  "nan_mul a b = (case a of None \<Rightarrow> None | Some x \<Rightarrow> (case b of None \<Rightarrow> None | Some y \<Rightarrow> Some (x * y)))"

definition nan_add :: "nat option \<Rightarrow> nat option \<Rightarrow> nat option" where
  "nan_add a b = (case a of None \<Rightarrow> None | Some x \<Rightarrow> (case b of None \<Rightarrow> None | Some y \<Rightarrow> Some (x + y)))"

text \<open>\<open>a === b\<close> on numbers: \<open>NaN\<close> is equal to nothing, itself included.\<close>

definition strict_eq :: "nat option \<Rightarrow> nat option \<Rightarrow> bool" where
  "strict_eq a b = (case a of None \<Rightarrow> False | Some x \<Rightarrow> (case b of None \<Rightarrow> False | Some y \<Rightarrow> x = y))"

section \<open>The check digit\<close>

text \<open>
  \<^verbatim>\<open>
  const calcularDigito = (numeros: string, pesos: number[]): number => {
    let soma = 0;
    for (let i = 0; i < numeros.length; i++) {
      soma += parseInt(numeros[i]) * pesos[i];
    }
    const resto = soma % 11;
    return resto < 2 ? 0 : 11 - resto;
  };
  \<close>
  The loop is \<open>calcular_soma\<close>, from index \<open>i\<close> with the running \<open>soma\<close>. With \<open>soma\<close>
  \<open>NaN\<close> the remainder is \<open>NaN\<close>, the comparison is false and \<open>11 - resto\<close> is \<open>NaN\<close>.
  \<open>validateCNPJ\<close> declares the same function again as \<open>calcularDigitoCNPJ\<close>.
\<close>

function calcular_soma :: "jsstring \<Rightarrow> nat list \<Rightarrow> nat \<Rightarrow> nat option \<Rightarrow> nat option" where
  "calcular_soma numeros pesos i soma =
     (if i < length numeros
      then calcular_soma numeros pesos (Suc i)
             (nan_add soma (nan_mul (parseInt_at numeros i) (peso_at pesos i)))
      else soma)"
  by pat_completeness auto
termination
  by (relation "measure (\<lambda>(numeros, pesos, i, soma). length numeros - i)") auto

declare calcular_soma.simps [simp del]

definition calcularDigito :: "jsstring \<Rightarrow> nat list \<Rightarrow> nat option" where
  "calcularDigito numeros pesos =
     (case calcular_soma numeros pesos 0 (Some 0) of
        None \<Rightarrow> None
      | Some soma \<Rightarrow> (let resto = soma mod 11 in Some (if resto < 2 then 0 else 11 - resto)))"

definition calcularDigitoCNPJ :: "jsstring \<Rightarrow> nat list \<Rightarrow> nat option" where
  "calcularDigitoCNPJ numeros pesos = calcularDigito numeros pesos"

section \<open>validateCPF and validateCNPJ\<close>

definition pesosPrimeiroDigitoCPF :: "nat list" where
  "pesosPrimeiroDigitoCPF = [10, 9, 8, 7, 6, 5, 4, 3, 2]"

definition pesosSegundoDigitoCPF :: "nat list" where
  "pesosSegundoDigitoCPF = [11, 10, 9, 8, 7, 6, 5, 4, 3, 2]"

definition validateCPF :: "jsstring \<Rightarrow> bool" where
  "validateCPF cpf0 =
     (let cpf = replace_non_digits cpf0 in
      if length cpf \<noteq> 11 \<or> repeated_digit 10 cpf then False
      else
        let primeiroDigito = calcularDigito (substring0 cpf 9) pesosPrimeiroDigitoCPF in
        if \<not> strict_eq (parseInt_at cpf 9) primeiroDigito then False
        else
          let segundoDigito = calcularDigito (substring0 cpf 10) pesosSegundoDigitoCPF in
          strict_eq (parseInt_at cpf 10) segundoDigito)"

definition pesosPrimeiroDigitoCNPJ :: "nat list" where
  "pesosPrimeiroDigitoCNPJ = [5, 4, 3, 2, 9, 8, 7, 6, 5, 4, 3, 2]"

definition pesosSegundoDigitoCNPJ :: "nat list" where
  "pesosSegundoDigitoCNPJ = [6, 5, 4, 3, 2, 9, 8, 7, 6, 5, 4, 3, 2]"

definition validateCNPJ :: "jsstring \<Rightarrow> bool" where
  "validateCNPJ cnpj0 =
     (let cnpj = replace_non_digits cnpj0 in
      if length cnpj \<noteq> 14 \<or> repeated_digit 13 cnpj then False
      else
        let primeiroDigito = calcularDigitoCNPJ (substring0 cnpj 12) pesosPrimeiroDigitoCNPJ in
        if \<not> strict_eq (parseInt_at cnpj 12) primeiroDigito then False
        else
          let segundoDigito = calcularDigitoCNPJ (substring0 cnpj 13) pesosSegundoDigitoCNPJ in
          strict_eq (parseInt_at cnpj 13) segundoDigito)"

section \<open>The check digit rule as the specification words it\<close>

text \<open>
  The specification's rule, on the digits that remain after stripping: the weighted sum
  of a prefix of the digits, \<open>remainder = sum mod 11\<close>, and
  \<open>checkDigit = remainder < 2 ? 0 : 11 - remainder\<close>.
\<close>

definition weighted_sum :: "nat list \<Rightarrow> nat list \<Rightarrow> nat" where
  "weighted_sum ds ws = sum_list (map2 (*) ds ws)"

definition check_digit :: "nat \<Rightarrow> nat" where
  "check_digit s = (let remainder = s mod 11 in if remainder < 2 then 0 else 11 - remainder)"

definition all_identical :: "'a list \<Rightarrow> bool" where
  "all_identical xs = list_all (\<lambda>x. x = hd xs) xs"

definition digits_of :: "jsstring \<Rightarrow> nat list" where
  "digits_of s = map digit_value (filter is_digit s)"

definition cpf_rule :: "jsstring \<Rightarrow> bool" where
  "cpf_rule s =
     (let ds = digits_of s in
      length ds = 11 \<and> \<not> all_identical ds \<and>
      check_digit (weighted_sum (take 9 ds) [10, 9, 8, 7, 6, 5, 4, 3, 2]) = ds ! 9 \<and>
      check_digit (weighted_sum (take 10 ds) [11, 10, 9, 8, 7, 6, 5, 4, 3, 2]) = ds ! 10)"

definition cnpj_rule :: "jsstring \<Rightarrow> bool" where
  "cnpj_rule s =
     (let ds = digits_of s in
      length ds = 14 \<and> \<not> all_identical ds \<and>
      check_digit (weighted_sum (take 12 ds) [5, 4, 3, 2, 9, 8, 7, 6, 5, 4, 3, 2]) = ds ! 12 \<and>
      check_digit (weighted_sum (take 13 ds) [6, 5, 4, 3, 2, 9, 8, 7, 6, 5, 4, 3, 2]) = ds ! 13)"

section \<open>JavaScript numbers\<close>

text \<open>
  The installment check and the normalisation work on arbitrary JavaScript numbers: IEEE
  754 binary64 values. A number is \<open>NaN\<close>, an infinity with its sign, or a finite value
  with its sign (\<open>True\<close> for negative, so that \<open>-0\<close> is \<open>Finite True 0\<close>) and its
  magnitude, a rational that binary64 represents.
\<close>

datatype number = NaN | Infinity bool | Finite bool rat

definition two_pow :: "int \<Rightarrow> rat" where
  "two_pow e = (if 0 \<le> e then 2 ^ nat e else 1 / 2 ^ nat (- e))"

fun bit_length :: "nat \<Rightarrow> nat" where
  "bit_length n = (if n = 0 then 0 else Suc (bit_length (n div 2)))"

declare bit_length.simps [simp del]

text \<open>
  The binary exponent of a positive rational \<open>q = a / b\<close>: the \<open>e\<close> with
  \<open>2^e \<le> q < 2^(e + 1)\<close>. It is the difference of the bit lengths of \<open>a\<close> and \<open>b\<close>, or
  one less.
\<close>

definition binary_exponent :: "rat \<Rightarrow> int" where
  "binary_exponent q =
     (let (a, b) = quotient_of q;
          k = int (bit_length (nat a)) - int (bit_length (nat b))
      in if two_pow k \<le> q then k else k - 1)"

definition round_half_even :: "rat \<Rightarrow> int" where
  "round_half_even q =
     (let f = \<lfloor>q\<rfloor>; r = q - of_int f
      in if r < 1 / 2 then f else if 1 / 2 < r then f + 1 else if even f then f else f + 1)"

text \<open>
  Rounding a magnitude to binary64, to nearest with ties to even: 53 significant bits,
  the exponent not below \<open>-1022\<close> (the subnormal numbers share the unit \<open>2^-1074\<close>), and
  \<open>None\<close> where the result would reach \<open>2^1024\<close> (the overflow to infinity).
\<close>

definition round_binary64 :: "rat \<Rightarrow> rat option" where
  "round_binary64 q =
     (if q = 0 then Some 0
      else
        let e = max (binary_exponent q) (- 1022);
            ulp = two_pow (e - 52);
            r = of_int (round_half_even (q / ulp)) * ulp
        in if r < two_pow 1024 then Some r else None)"

definition to_number :: "bool \<Rightarrow> rat \<Rightarrow> number" where
  "to_number negative q =
     (case round_binary64 q of None \<Rightarrow> Infinity negative | Some r \<Rightarrow> Finite negative r)"

text \<open>\<open>x / y\<close> on numbers.\<close>

fun number_divide :: "number \<Rightarrow> number \<Rightarrow> number" where
  "number_divide NaN y = NaN"
| "number_divide x NaN = NaN"
| "number_divide (Infinity s) (Infinity t) = NaN"
| "number_divide (Infinity s) (Finite t q) = Infinity (s \<noteq> t)"
| "number_divide (Finite s p) (Infinity t) = Finite (s \<noteq> t) 0"
| "number_divide (Finite s p) (Finite t q) =
     (if q = 0 then (if p = 0 then NaN else Infinity (s \<noteq> t))
      else to_number (s \<noteq> t) (p / q))"

text \<open>\<open>x === y\<close> on numbers: \<open>NaN\<close> equals nothing, and \<open>+0\<close> equals \<open>-0\<close>.\<close>

fun number_equal :: "number \<Rightarrow> number \<Rightarrow> bool" where
  "number_equal (Infinity s) (Infinity t) = (s = t)"
| "number_equal (Finite s p) (Finite t q) = (p = q \<and> (s = t \<or> p = 0))"
| "number_equal x y = False"

section \<open>parseFloat and parseInt\<close>

text \<open>
  The white space and line terminators that \<open>parseFloat\<close> and \<open>parseInt\<close> skip at the
  start of a string.
\<close>

definition is_white :: "code_unit \<Rightarrow> bool" where
  "is_white c =
     (c \<in> set [0x09, 0x0A, 0x0B, 0x0C, 0x0D, 0x20, 0xA0, 0x1680, 0x2028, 0x2029, 0x202F,
               0x205F, 0x3000, 0xFEFF]
      \<or> (0x2000 \<le> c \<and> c \<le> 0x200A))"

definition decimal_value :: "jsstring \<Rightarrow> nat" where
  "decimal_value ds = foldl (\<lambda>n c. 10 * n + digit_value c) 0 ds"

definition has_sign :: "jsstring \<Rightarrow> bool" where
  "has_sign s = (case s of [] \<Rightarrow> False | c # cs \<Rightarrow> c = 0x2B \<or> c = 0x2D)"

definition is_negative :: "jsstring \<Rightarrow> bool" where
  "is_negative s = (case s of [] \<Rightarrow> False | c # cs \<Rightarrow> c = 0x2D)"

definition drop_sign :: "jsstring \<Rightarrow> jsstring" where
  "drop_sign s = (if has_sign s then tl s else s)"

text \<open>
  The exponent part at the start of \<open>s\<close>: \<open>e\<close> or \<open>E\<close>, an optional sign and at least one
  digit. Anything else is no exponent part, and the literal ends before it.
\<close>

definition exponent_part :: "jsstring \<Rightarrow> int" where
  "exponent_part s =
     (case s of
        [] \<Rightarrow> 0
      | c # cs \<Rightarrow>
          if c = 0x65 \<or> c = 0x45 then
            (let ds = takeWhile is_digit (drop_sign cs) in
             if ds = [] then 0
             else if is_negative cs then - int (decimal_value ds) else int (decimal_value ds))
          else 0)"

definition pow10 :: "int \<Rightarrow> rat" where
  "pow10 e = (if 0 \<le> e then 10 ^ nat e else 1 / 10 ^ nat (- e))"

text \<open>
  \<open>parseFloat(string)\<close>: the longest prefix of the trimmed string that is a decimal
  literal (a sign, then \<open>Infinity\<close> or digits with an optional fraction and exponent;
  one digit at least before or after the dot), rounded to binary64. \<open>NaN\<close> when there is
  no such prefix. The value that is rounded is the exact value of the literal, as V8
  does it (ECMAScript lets an implementation approximate a literal beyond its twentieth
  significant digit; \<open>parseInt\<close> below is the same).
\<close>

definition parseFloat :: "jsstring \<Rightarrow> number" where
  "parseFloat string =
     (let trimmed = dropWhile is_white string;
          negative = is_negative trimmed;
          u = drop_sign trimmed
      in if take 8 u = str ''Infinity'' then Infinity negative
         else
           let ip = takeWhile is_digit u;
               r1 = dropWhile is_digit u;
               has_dot = (case r1 of [] \<Rightarrow> False | c # cs \<Rightarrow> c = 0x2E);
               fp = (if has_dot then takeWhile is_digit (tl r1) else []);
               r2 = (if has_dot then dropWhile is_digit (tl r1) else r1)
           in if ip = [] \<and> fp = [] then NaN
              else to_number negative
                     (of_nat (decimal_value (ip @ fp)) * pow10 (exponent_part r2 - int (length fp))))"

text \<open>
  The value of a code unit as a digit of a radix up to 36 (\<open>36\<close> for a code unit that is
  no digit in any radix).
\<close>

definition radix_digit_value :: "code_unit \<Rightarrow> nat" where
  "radix_digit_value c =
     (if is_digit c then unat c - 48
      else if 0x61 \<le> c \<and> c \<le> 0x7A then unat c - 87
      else if 0x41 \<le> c \<and> c \<le> 0x5A then unat c - 55
      else 36)"

definition is_radix_digit :: "nat \<Rightarrow> code_unit \<Rightarrow> bool" where
  "is_radix_digit R c = (radix_digit_value c < R)"

text \<open>
  \<open>parseInt(string, radix)\<close>, with \<open>radix = 0\<close> for a call that gives none: the sign, the
  \<open>0x\<close> prefix when the radix is absent or 16, then the digits of the radix up to the
  first code unit that is none. \<open>NaN\<close> when no digit is left.
\<close>

definition parseInt :: "jsstring \<Rightarrow> nat \<Rightarrow> number" where
  "parseInt string radix =
     (let S0 = dropWhile is_white string;
          negative = is_negative S0;
          S1 = drop_sign S0
      in if radix \<noteq> 0 \<and> (radix < 2 \<or> 36 < radix) then NaN
         else
           let stripPrefix = (radix = 0 \<or> radix = 16);
               hex = (stripPrefix \<and> (take 2 S1 = [0x30, 0x78] \<or> take 2 S1 = [0x30, 0x58]));
               R = (if hex then 16 else if radix = 0 then 10 else radix);
               S2 = (if hex then drop 2 S1 else S1);
               Z = takeWhile (is_radix_digit R) S2
           in if Z = [] then NaN
              else to_number negative
                     (of_nat (foldl (\<lambda>n c. R * n + radix_digit_value c) 0 Z)))"

section \<open>The records\<close>

record ICSVData =
  nrInst :: jsstring
  nrAgencia :: jsstring
  cdClient :: jsstring
  nmClient :: jsstring
  nrCpfCnpj :: jsstring
  nrContrato :: jsstring
  dtContrato :: jsstring
  qtPrestacoes :: jsstring
  vlTotal :: jsstring
  cdProduto :: jsstring
  dsProduto :: jsstring
  cdCarteira :: jsstring
  dsCarteira :: jsstring
  nrProposta :: jsstring
  nrPresta :: jsstring
  tpPresta :: jsstring
  nrSeqPre :: jsstring
  dtVctPre :: jsstring
  vlPresta :: jsstring
  vlMora :: jsstring
  vlMulta :: jsstring
  vlOutAcr :: jsstring
  vlIof :: jsstring
  vlDescon :: jsstring
  vlAtual :: jsstring
  idSituac :: jsstring
  idSitVen :: jsstring

record IData =
  nrInst :: number
  nrAgencia :: number
  cdClient :: number
  nmClient :: jsstring
  nrCpfCnpj :: jsstring
  nrContrato :: number
  dtContrato :: jsstring
  qtPrestacoes :: number
  vlTotal :: jsstring
  cdProduto :: number
  dsProduto :: jsstring
  cdCarteira :: number
  dsCarteira :: jsstring
  nrProposta :: number
  nrPresta :: number
  tpPresta :: jsstring
  nrSeqPre :: number
  dtVctPre :: jsstring
  vlPresta :: jsstring
  vlMora :: jsstring
  vlMulta :: jsstring
  vlOutAcr :: jsstring
  vlIof :: jsstring
  vlDescon :: jsstring
  vlAtual :: jsstring
  idSituac :: jsstring
  idSitVen :: jsstring

record IError =
  error :: jsstring
  data :: ICSVData

section \<open>formatCurrency\<close>

text \<open>
  \<^verbatim>\<open>
  formatCurrency(value: string) {
    return new Intl.NumberFormat('pt-BR', { style: 'currency', currency: 'BRL',
      minimumFractionDigits: 2, maximumFractionDigits: 2 }).format(parseFloat(value));
  }
  \<close>
  The formatter writes a minus sign for a negative number (negative zero included), the
  currency symbol \<open>R$\<close>, a no-break space, and then \<open>NaN\<close>, the infinity sign, or the
  magnitude: the integer digits in groups of three separated by dots, a comma, and two
  fraction digits.

  Which hundredths a finite magnitude is rounded to is the runtime's choice, so the
  rounding is the parameter \<open>cents\<close>, from a magnitude to its hundredths, and every
  statement below holds for all \<open>cents\<close>. \<open>ecma402_cents\<close> is one instance, the rule as
  ECMA-402 words it: the exact binary value, half away from zero. It is not what V8
  prints on every input: V8 rounds the shortest decimal that reads back as the same
  number, so \<open>1.005\<close> (in binary a little below 1.005) is printed \<open>1,01\<close>, where
  \<open>ecma402_cents\<close> gives \<open>1,00\<close>. It serves only to fill the parameter in the concrete
  cases, on amounts that are not near a tie.
\<close>

definition ecma402_cents :: "rat \<Rightarrow> nat" where
  "ecma402_cents q = nat \<lfloor>q * 100 + 1 / 2\<rfloor>"

definition digit_unit :: "nat \<Rightarrow> code_unit" where
  "digit_unit d = of_nat (48 + d)"

function decimal_digits :: "nat \<Rightarrow> jsstring" where
  "decimal_digits n =
     (if n < 10 then [digit_unit n] else decimal_digits (n div 10) @ [digit_unit (n mod 10)])"
  by pat_completeness auto
termination
  by (relation "measure id") auto

declare decimal_digits.simps [simp del]

function group_thousands :: "jsstring \<Rightarrow> jsstring" where
  "group_thousands ds =
     (if length ds \<le> 3 then ds
      else group_thousands (take (length ds - 3) ds) @ [0x2E] @ drop (length ds - 3) ds)"
  by pat_completeness auto
termination
  by (relation "measure length") auto

declare group_thousands.simps [simp del]

definition format_cents :: "nat \<Rightarrow> jsstring" where
  "format_cents c =
     group_thousands (decimal_digits (c div 100))
       @ [0x2C, digit_unit (c mod 100 div 10), digit_unit (c mod 10)]"

definition minus_sign :: "bool \<Rightarrow> jsstring" where
  "minus_sign negative = (if negative then [0x2D] else [])"

fun Intl_format_BRL :: "(rat \<Rightarrow> nat) \<Rightarrow> number \<Rightarrow> jsstring" where
  "Intl_format_BRL cents NaN = str ''R$'' @ [0xA0] @ str ''NaN''"
| "Intl_format_BRL cents (Infinity s) = minus_sign s @ str ''R$'' @ [0xA0, 0x221E]"
| "Intl_format_BRL cents (Finite s q) = minus_sign s @ str ''R$'' @ [0xA0] @ format_cents (cents q)"

definition formatCurrency :: "(rat \<Rightarrow> nat) \<Rightarrow> jsstring \<Rightarrow> jsstring" where
  "formatCurrency cents v = Intl_format_BRL cents (parseFloat v)"

section \<open>validateInstallments\<close>

text \<open>
  \<^verbatim>\<open>
  validateInstallments(data: ICSVData): boolean {
    return (parseFloat(data.vlTotal) / parseInt(data.qtPrestacoes)) === parseFloat(data.vlPresta)
  }
  \<close>
\<close>

definition validateInstallments :: "ICSVData \<Rightarrow> bool" where
  "validateInstallments d =
     number_equal
       (number_divide (parseFloat (ICSVData.vlTotal d)) (parseInt (ICSVData.qtPrestacoes d) 0))
       (parseFloat (ICSVData.vlPresta d))"

section \<open>The processor\<close>

text \<open>
  The object's fields, and the console it writes to: \<open>proccessBatch\<close> hands the two
  collections to \<open>console.log\<close>, the stand-in for the sink, one line each. \<open>count\<close> is
  a counter from zero, a natural number; \<open>batchSize\<close> is any integer.
\<close>

datatype console_line =
  Registros_com_erro "IError list"
| Registros_corretos "IData list"

record CsvDataProcessor =
  filePath :: jsstring
  batchSize :: int
  success_results :: "IData list"
  error_results :: "IError list"
  count :: nat
  console :: "console_line list"

text \<open>
  The field initialisers and the constructor: \<open>if (batchSize)\<close> keeps the default 1000
  when the argument is absent or zero.
\<close>

definition constructor :: "jsstring \<Rightarrow> int option \<Rightarrow> CsvDataProcessor" where
  "constructor path batch =
     \<lparr> filePath = path,
       batchSize = (case batch of None \<Rightarrow> 1000 | Some b \<Rightarrow> if b \<noteq> 0 then b else 1000),
       success_results = [],
       error_results = [],
       count = 0,
       console = [] \<rparr>"

definition resetData :: "CsvDataProcessor \<Rightarrow> CsvDataProcessor" where
  "resetData this = this\<lparr> success_results := [], error_results := [], count := 0 \<rparr>"

definition proccessBatch :: "CsvDataProcessor \<Rightarrow> CsvDataProcessor" where
  "proccessBatch this =
     resetData
       (this\<lparr> console := console this
           @ [Registros_com_erro (error_results this), Registros_corretos (success_results this)] \<rparr>)"

text \<open>The object that \<open>proccess\<close> pushes for an accepted record.\<close>

definition normalize :: "(rat \<Rightarrow> nat) \<Rightarrow> ICSVData \<Rightarrow> IData" where
  "normalize cents d =
     \<lparr> IData.nrInst = parseInt (ICSVData.nrInst d) 10,
       IData.nrAgencia = parseInt (ICSVData.nrAgencia d) 10,
       IData.cdClient = parseInt (ICSVData.cdClient d) 10,
       IData.nmClient = ICSVData.nmClient d,
       IData.nrCpfCnpj = ICSVData.nrCpfCnpj d,
       IData.nrContrato = parseInt (ICSVData.nrContrato d) 10,
       IData.dtContrato = ICSVData.dtContrato d,
       IData.qtPrestacoes = parseInt (ICSVData.qtPrestacoes d) 10,
       IData.vlTotal = formatCurrency cents (ICSVData.vlTotal d),
       IData.cdProduto = parseInt (ICSVData.cdProduto d) 10,
       IData.dsProduto = ICSVData.dsProduto d,
       IData.cdCarteira = parseInt (ICSVData.cdCarteira d) 10,
       IData.dsCarteira = ICSVData.dsCarteira d,
       IData.nrProposta = parseInt (ICSVData.nrProposta d) 10,
       IData.nrPresta = parseInt (ICSVData.nrPresta d) 10,
       IData.tpPresta = ICSVData.tpPresta d,
       IData.nrSeqPre = parseInt (ICSVData.nrSeqPre d) 10,
       IData.dtVctPre = ICSVData.dtVctPre d,
       IData.vlPresta = formatCurrency cents (ICSVData.vlPresta d),
       IData.vlMora = formatCurrency cents (ICSVData.vlMora d),
       IData.vlMulta = formatCurrency cents (ICSVData.vlMulta d),
       IData.vlOutAcr = formatCurrency cents (ICSVData.vlOutAcr d),
       IData.vlIof = formatCurrency cents (ICSVData.vlIof d),
       IData.vlDescon = formatCurrency cents (ICSVData.vlDescon d),
       IData.vlAtual = formatCurrency cents (ICSVData.vlAtual d),
       IData.idSituac = ICSVData.idSituac d,
       IData.idSitVen = ICSVData.idSitVen d \<rparr>"

definition push_error :: "jsstring \<Rightarrow> ICSVData \<Rightarrow> CsvDataProcessor \<Rightarrow> CsvDataProcessor" where
  "push_error reason d this =
     this\<lparr> error_results := error_results this @ [\<lparr> error = reason, data = d \<rparr>] \<rparr>"

text \<open>
  \<open>proccess\<close>: the count first, then the checks in the order of the source, each
  \<open>return\<close> ending the call.
\<close>

definition proccess :: "(rat \<Rightarrow> nat) \<Rightarrow> ICSVData \<Rightarrow> CsvDataProcessor \<Rightarrow> CsvDataProcessor" where
  "proccess cents d this0 =
     (let this = this0\<lparr> count := count this0 + 1 \<rparr> in
      if length (replace_non_digits (ICSVData.nrCpfCnpj d)) \<notin> set [11, 14]
      then push_error (str ''Invalid CPF or CNPJ'') d this
      else if length (ICSVData.nrCpfCnpj d) = 11 \<and> \<not> validateCPF (ICSVData.nrCpfCnpj d)
      then push_error (str ''Invalid CPF'') d this
      else if length (ICSVData.nrCpfCnpj d) = 14 \<and> \<not> validateCNPJ (ICSVData.nrCpfCnpj d)
      then push_error (str ''Invalid CNPJ'') d this
      else if \<not> validateInstallments d
      then push_error (str ''Invalid Installments'') d this
      else this\<lparr> success_results := success_results this @ [normalize cents d] \<rparr>)"

text \<open>
  \<open>getCsvData\<close>: the stream calls the \<open>data\<close> handler for every row, in order, and the
  \<open>end\<close> handler once after the last. The rows the stream yields are the list \<open>rows\<close>.
\<close>

definition on_data :: "(rat \<Rightarrow> nat) \<Rightarrow> ICSVData \<Rightarrow> CsvDataProcessor \<Rightarrow> CsvDataProcessor" where
  "on_data cents d this0 =
     (let this = proccess cents d this0 in
      if batchSize this \<le> int (count this) then proccessBatch this else this)"

definition on_end :: "CsvDataProcessor \<Rightarrow> CsvDataProcessor" where
  "on_end this = proccessBatch this"

definition submit_rows :: "(rat \<Rightarrow> nat) \<Rightarrow> ICSVData list \<Rightarrow> CsvDataProcessor \<Rightarrow> CsvDataProcessor" where
  "submit_rows cents rows this = foldl (\<lambda>t d. on_data cents d t) this rows"

definition getCsvData :: "(rat \<Rightarrow> nat) \<Rightarrow> ICSVData list \<Rightarrow> CsvDataProcessor \<Rightarrow> CsvDataProcessor" where
  "getCsvData cents rows this = on_end (submit_rows cents rows this)"

definition run :: "(rat \<Rightarrow> nat) \<Rightarrow> ICSVData list \<Rightarrow> CsvDataProcessor \<Rightarrow> CsvDataProcessor" where
  "run cents rows this = getCsvData cents rows (resetData this)"

section \<open>Outcomes, the invariant and the shape of a currency string\<close>

text \<open>
  The names the statements below use. The gate of \<open>proccess\<close> passes when eleven or
  fourteen digits remain after stripping. \<open>accepted\<close> and \<open>rejected\<close> are the two states
  a call of \<open>proccess\<close> can end in: the count one higher, and one entry more in one of the
  collections.
\<close>

definition passes_gate :: "ICSVData \<Rightarrow> bool" where
  "passes_gate d = (length (replace_non_digits (ICSVData.nrCpfCnpj d)) \<in> set [11, 14])"

definition accepted :: "(rat \<Rightarrow> nat) \<Rightarrow> ICSVData \<Rightarrow> CsvDataProcessor \<Rightarrow> CsvDataProcessor" where
  "accepted cents d this =
     this\<lparr> count := count this + 1,
            success_results := success_results this @ [normalize cents d] \<rparr>"

definition rejected :: "jsstring \<Rightarrow> ICSVData \<Rightarrow> CsvDataProcessor \<Rightarrow> CsvDataProcessor" where
  "rejected reason d this =
     this\<lparr> count := count this + 1,
            error_results := error_results this @ [\<lparr> error = reason, data = d \<rparr>] \<rparr>"

definition reasons :: "jsstring list" where
  "reasons =
     [str ''Invalid CPF or CNPJ'', str ''Invalid CPF'', str ''Invalid CNPJ'',
      str ''Invalid Installments'']"

definition count_invariant :: "CsvDataProcessor \<Rightarrow> bool" where
  "count_invariant this =
     (count this = length (success_results this) + length (error_results this))"

text \<open>The state after a flush: the two lines on the console, and the fields reset.\<close>

definition flushed :: "CsvDataProcessor \<Rightarrow> CsvDataProcessor" where
  "flushed this =
     this\<lparr> console := console this
              @ [Registros_com_erro (error_results this), Registros_corretos (success_results this)],
            success_results := [], error_results := [], count := 0 \<rparr>"

text \<open>The rows validated one after the other with no flush in between.\<close>

definition proccess_all :: "(rat \<Rightarrow> nat) \<Rightarrow> ICSVData list \<Rightarrow> CsvDataProcessor \<Rightarrow> CsvDataProcessor" where
  "proccess_all cents rows this = foldl (\<lambda>t d. proccess cents d t) this rows"

text \<open>
  A string with exactly two fraction digits: it ends with the decimal comma and two
  digits, and has no other comma.
\<close>

definition two_fraction_digits :: "jsstring \<Rightarrow> bool" where
  "two_fraction_digits s =
     (case rev s of
        b # a # c # p \<Rightarrow> c = 0x2C \<and> is_digit a \<and> is_digit b \<and> 0x2C \<notin> set p
      | _ \<Rightarrow> False)"

text \<open>The finite numbers: neither \<open>NaN\<close> nor an infinity.\<close>

definition is_finite :: "number \<Rightarrow> bool" where
  "is_finite x = (case x of Finite s q \<Rightarrow> True | _ \<Rightarrow> False)"

text \<open>
  The number that a string of decimal digits denotes, digit by position: the reading of
  a decimal amount that the parsers are measured against.
\<close>

definition positional_value :: "jsstring \<Rightarrow> nat" where
  "positional_value ds = (\<Sum>i<length ds. digit_value (ds ! i) * 10 ^ (length ds - 1 - i))"

text \<open>A string that starts with a digit or a dot has no space, sign or \<open>Infinity\<close> to skip.\<close>

definition plain_start :: "jsstring \<Rightarrow> bool" where
  "plain_start s = (case s of [] \<Rightarrow> False | c # cs \<Rightarrow> is_digit c \<or> c = 0x2E)"

text \<open>A row of the input, for the concrete cases.\<close>

definition example_row :: "ICSVData" where
  "example_row =
     \<lparr> ICSVData.nrInst = str ''533'',
       ICSVData.nrAgencia = str ''32'',
       ICSVData.cdClient = str ''56133'',
       ICSVData.nmClient = str ''CLIENTE 1'',
       ICSVData.nrCpfCnpj = str ''11144477735'',
       ICSVData.nrContrato = str ''733067'',
       ICSVData.dtContrato = str ''20221227'',
       ICSVData.qtPrestacoes = str ''10'',
       ICSVData.vlTotal = str ''1000.00'',
       ICSVData.cdProduto = str ''777'',
       ICSVData.dsProduto = str ''CDC PESSOA JURIDICA'',
       ICSVData.cdCarteira = str ''17'',
       ICSVData.dsCarteira = str ''CREDITO DIRETO AO CONSUMIDOR'',
       ICSVData.nrProposta = str ''798586'',
       ICSVData.nrPresta = str ''2'',
       ICSVData.tpPresta = str ''Original'',
       ICSVData.nrSeqPre = str ''0'',
       ICSVData.dtVctPre = str ''20220406'',
       ICSVData.vlPresta = str ''100.00'',
       ICSVData.vlMora = str ''0.00'',
       ICSVData.vlMulta = str ''0.00'',
       ICSVData.vlOutAcr = str ''0'',
       ICSVData.vlIof = str ''0'',
       ICSVData.vlDescon = str ''0'',
       ICSVData.vlAtual = str ''100.00'',
       ICSVData.idSituac = str ''Aberta'',
       ICSVData.idSitVen = str ''Vencida'' \<rparr>"

section \<open>The validators compute the check digit rule\<close>

lemma is_digit_unat: "is_digit c \<longleftrightarrow> 48 \<le> unat c \<and> unat c \<le> 57"
  by (simp add: is_digit_def word_le_nat_alt)

lemma digit_value_inj:
  "is_digit a \<Longrightarrow> is_digit b \<Longrightarrow> digit_value a = digit_value b \<Longrightarrow> a = b"
  by (simp add: is_digit_unat digit_value_def word_unat_eq_iff) arith

lemma weighted_sum_Nil [simp]: "weighted_sum [] ws = 0"
  by (simp add: weighted_sum_def)

lemma weighted_sum_Cons [simp]: "weighted_sum (d # ds) (w # ws) = d * w + weighted_sum ds ws"
  by (simp add: weighted_sum_def)

text \<open>
  On a string of digits that is no longer than the list of weights, the loop adds the
  weighted sum of the digits from index \<open>i\<close> on to the running sum.
\<close>

lemma calcular_soma_digits:
  assumes "list_all is_digit numeros" and "length numeros \<le> length pesos"
  shows "i \<le> length numeros \<Longrightarrow>
         calcular_soma numeros pesos i (Some acc) =
           Some (acc + weighted_sum (map digit_value (drop i numeros)) (drop i pesos))"
proof (induction "length numeros - i" arbitrary: i acc)
  case 0
  then show ?case by (subst calcular_soma.simps) simp
next
  case (Suc k)
  then have lt: "i < length numeros" by simp
  with assms have ltp: "i < length pesos" by simp
  from lt assms(1) have dig: "is_digit (numeros ! i)"
    by (simp add: list_all_length)
  have step: "calcular_soma numeros pesos i (Some acc) =
      calcular_soma numeros pesos (Suc i) (Some (acc + digit_value (numeros ! i) * pesos ! i))"
    using lt ltp dig
    by (subst calcular_soma.simps)
       (simp add: parseInt_at_def parseInt_unit_def peso_at_def nan_add_def nan_mul_def)
  have "length numeros - Suc i = k" using Suc.hyps(2) by simp
  then have ih: "calcular_soma numeros pesos (Suc i) (Some (acc + digit_value (numeros ! i) * pesos ! i)) =
      Some (acc + digit_value (numeros ! i) * pesos ! i
        + weighted_sum (map digit_value (drop (Suc i) numeros)) (drop (Suc i) pesos))"
    using Suc.hyps(1) [of "Suc i"] lt by simp
  have d1: "drop i numeros = numeros ! i # drop (Suc i) numeros"
    using lt by (simp add: Cons_nth_drop_Suc)
  have d2: "drop i pesos = pesos ! i # drop (Suc i) pesos"
    using ltp by (simp add: Cons_nth_drop_Suc)
  show ?case
    unfolding step ih d1 d2 by simp
qed

lemma calcularDigito_digits:
  assumes "list_all is_digit numeros" and "length numeros \<le> length pesos"
  shows "calcularDigito numeros pesos =
           Some (check_digit (weighted_sum (map digit_value numeros) pesos))"
  using calcular_soma_digits [OF assms, of 0 0]
  by (simp add: calcularDigito_def check_digit_def Let_def)

lemma repeated_digit_iff:
  assumes "list_all is_digit s" and "length s = Suc n"
  shows "repeated_digit n s \<longleftrightarrow> all_identical (map digit_value s)"
proof -
  from assms(2) obtain c cs where s: "s = c # cs" and len: "length cs = n"
    by (cases s) auto
  from assms(1) s have dc: "is_digit c" and dcs: "\<forall>x\<in>set cs. is_digit x"
    by (simp_all add: list_all_iff)
  have "cs = replicate n c \<longleftrightarrow> (\<forall>x\<in>set cs. x = c)"
    using len by (metis in_set_replicate replicate_length_same)
  also have "\<dots> \<longleftrightarrow> (\<forall>x\<in>set cs. digit_value x = digit_value c)"
    using dc dcs by (auto dest: digit_value_inj)
  finally show ?thesis
    using dc by (simp add: repeated_digit_def all_identical_def s list_all_iff)
qed

lemma validateCPF_eq: "validateCPF s = cpf_rule s"
proof (cases "length (filter is_digit s) = 11")
  case False
  then show ?thesis
    by (simp add: validateCPF_def cpf_rule_def digits_of_def replace_non_digits_def Let_def)
next
  case True
  define cpf where "cpf = filter is_digit s"
  have dig: "list_all is_digit cpf" by (simp add: cpf_def list_all_iff)
  have len: "length cpf = 11" using True by (simp add: cpf_def)
  have rep: "repeated_digit 10 cpf \<longleftrightarrow> all_identical (map digit_value cpf)"
    using repeated_digit_iff [OF dig, of 10] len by simp
  have t9: "list_all is_digit (take 9 cpf)" and t10: "list_all is_digit (take 10 cpf)"
    using dig by (auto simp: list_all_iff dest: in_set_takeD)
  have c1: "calcularDigito (substring0 cpf 9) pesosPrimeiroDigitoCPF =
      Some (check_digit (weighted_sum (take 9 (map digit_value cpf)) [10, 9, 8, 7, 6, 5, 4, 3, 2]))"
    using calcularDigito_digits [OF t9, of pesosPrimeiroDigitoCPF]
    by (simp add: substring0_def pesosPrimeiroDigitoCPF_def take_map)
  have c2: "calcularDigito (substring0 cpf 10) pesosSegundoDigitoCPF =
      Some (check_digit (weighted_sum (take 10 (map digit_value cpf)) [11, 10, 9, 8, 7, 6, 5, 4, 3, 2]))"
    using calcularDigito_digits [OF t10, of pesosSegundoDigitoCPF]
    by (simp add: substring0_def pesosSegundoDigitoCPF_def take_map)
  have p9: "parseInt_at cpf 9 = Some (map digit_value cpf ! 9)"
    and p10: "parseInt_at cpf 10 = Some (map digit_value cpf ! 10)"
    using dig len by (simp_all add: parseInt_at_def parseInt_unit_def list_all_length)
  show ?thesis
    unfolding validateCPF_def cpf_rule_def digits_of_def replace_non_digits_def Let_def
      cpf_def [symmetric] c1 c2 p9 p10 rep
    using len by (auto simp: strict_eq_def)
qed

lemma validateCNPJ_eq: "validateCNPJ s = cnpj_rule s"
proof (cases "length (filter is_digit s) = 14")
  case False
  then show ?thesis
    by (simp add: validateCNPJ_def cnpj_rule_def digits_of_def replace_non_digits_def Let_def)
next
  case True
  define cnpj where "cnpj = filter is_digit s"
  have dig: "list_all is_digit cnpj" by (simp add: cnpj_def list_all_iff)
  have len: "length cnpj = 14" using True by (simp add: cnpj_def)
  have rep: "repeated_digit 13 cnpj \<longleftrightarrow> all_identical (map digit_value cnpj)"
    using repeated_digit_iff [OF dig, of 13] len by simp
  have t12: "list_all is_digit (take 12 cnpj)" and t13: "list_all is_digit (take 13 cnpj)"
    using dig by (auto simp: list_all_iff dest: in_set_takeD)
  have c1: "calcularDigitoCNPJ (substring0 cnpj 12) pesosPrimeiroDigitoCNPJ =
      Some (check_digit (weighted_sum (take 12 (map digit_value cnpj))
        [5, 4, 3, 2, 9, 8, 7, 6, 5, 4, 3, 2]))"
    using calcularDigito_digits [OF t12, of pesosPrimeiroDigitoCNPJ]
    by (simp add: calcularDigitoCNPJ_def substring0_def pesosPrimeiroDigitoCNPJ_def take_map)
  have c2: "calcularDigitoCNPJ (substring0 cnpj 13) pesosSegundoDigitoCNPJ =
      Some (check_digit (weighted_sum (take 13 (map digit_value cnpj))
        [6, 5, 4, 3, 2, 9, 8, 7, 6, 5, 4, 3, 2]))"
    using calcularDigito_digits [OF t13, of pesosSegundoDigitoCNPJ]
    by (simp add: calcularDigitoCNPJ_def substring0_def pesosSegundoDigitoCNPJ_def take_map)
  have p12: "parseInt_at cnpj 12 = Some (map digit_value cnpj ! 12)"
    and p13: "parseInt_at cnpj 13 = Some (map digit_value cnpj ! 13)"
    using dig len by (simp_all add: parseInt_at_def parseInt_unit_def list_all_length)
  show ?thesis
    unfolding validateCNPJ_def cnpj_rule_def digits_of_def replace_non_digits_def Let_def
      cnpj_def [symmetric] c1 c2 p12 p13 rep
    using len by (auto simp: strict_eq_def)
qed

text \<open>The rule evaluated on concrete identifiers.\<close>

lemmas rule_eval =
  cpf_rule_def cnpj_rule_def digits_of_def str_def is_digit_def digit_value_def
  all_identical_def check_digit_def Let_def

lemma cpf_11144477735: "validateCPF (str ''11144477735'')"
  by (simp add: validateCPF_eq rule_eval)

lemma cpf_repeated_ones: "\<not> validateCPF (str ''11111111111'')"
  by (simp add: validateCPF_eq rule_eval)

lemma cpf_last_digit_altered:
  assumes "c \<noteq> 0x35"
  shows "\<not> validateCPF (str ''1114447773'' @ [c])"
proof (cases "is_digit c")
  case False
  then show ?thesis
    by (simp add: validateCPF_eq cpf_rule_def digits_of_def str_def)
next
  case True
  from assms True have ne: "digit_value c \<noteq> 5"
    by (simp add: is_digit_unat digit_value_def word_unat_eq_iff; arith?)
  have "digits_of (str ''1114447773'') = [1, 1, 1, 4, 4, 4, 7, 7, 7, 3]"
    by (simp add: digits_of_def str_def is_digit_def digit_value_def)
  with True have ds:
    "digits_of (str ''1114447773'' @ [c]) = [1, 1, 1, 4, 4, 4, 7, 7, 7, 3, digit_value c]"
    by (simp add: digits_of_def)
  show ?thesis
    unfolding validateCPF_eq cpf_rule_def ds Let_def using ne
    by (simp add: check_digit_def)
qed

lemma cnpj_11444777000161: "validateCNPJ (str ''11444777000161'')"
  by (simp add: validateCNPJ_eq rule_eval)

lemma cnpj_repeated:
  assumes "is_digit c"
  shows "\<not> validateCNPJ (replicate 14 c)"
proof -
  have "filter is_digit (replicate 14 c) = replicate 14 c"
    using assms by simp
  then show ?thesis
    by (simp add: validateCNPJ_eq cnpj_rule_def digits_of_def all_identical_def list_all_iff
        Let_def)
qed

text \<open>
  Claim C1. \<open>validateCPF\<close>, on any string, strips the code units that are not digits and
  returns true exactly when eleven digits remain, they are not all identical, and both
  check digits match the weighted sum rule (weights 10 down to 2 over digits 0 to 8
  against digit 9, weights 11 down to 2 over digits 0 to 9 against digit 10, with
  \<open>check = 0\<close> when \<open>sum mod 11 < 2\<close> and \<open>11 - sum mod 11\<close> otherwise). It accepts
  \<open>11144477735\<close>, rejects \<open>11111111111\<close>, and rejects \<open>1114447773\<close> followed by any code
  unit other than \<open>5\<close>.
\<close>

theorem validateCPF_checksum_rule:
  "validateCPF s = cpf_rule s \<and>
   validateCPF (str ''11144477735'') \<and>
   \<not> validateCPF (str ''11111111111'') \<and>
   (\<forall>c. c \<noteq> 0x35 \<longrightarrow> \<not> validateCPF (str ''1114447773'' @ [c]))"
  using validateCPF_eq cpf_11144477735 cpf_repeated_ones cpf_last_digit_altered by blast

theorem validateCPF_checksum_rule_witness:
  "validateCPF (str ''111.444.777-35'') \<and> \<not> validateCPF (str ''11144477736'')"
proof -
  have r: "cpf_rule (str ''111.444.777-35'')"
    by (simp add: rule_eval)
  have e: "str ''1114447773'' @ [0x36] = str ''11144477736''"
    by (simp add: str_def)
  have n: "(0x36 :: code_unit) \<noteq> 0x35"
    by simp
  from validateCPF_checksum_rule [of "str ''111.444.777-35''"]
  have "validateCPF (str ''111.444.777-35'') = cpf_rule (str ''111.444.777-35'')"
    and "\<forall>c. c \<noteq> 0x35 \<longrightarrow> \<not> validateCPF (str ''1114447773'' @ [c])"
    by blast+
  with r n e show ?thesis
    by metis
qed


section \<open>Rounding is exact on the integers below \<open>2^53\<close>\<close>

lemma bit_length_0 [simp]: "bit_length 0 = 0"
  by (subst bit_length.simps) simp

lemma bit_length_1 [simp]: "bit_length (Suc 0) = Suc 0"
  by (subst bit_length.simps) simp

lemma bit_length_bounds:
  "0 < n \<Longrightarrow> 2 ^ (bit_length n - 1) \<le> n \<and> n < 2 ^ bit_length n"
proof (induction n rule: bit_length.induct)
  case (1 n)
  show ?case
  proof (cases "n div 2 = 0")
    case True
    with "1.prems" have "n = 1" by (simp add: div_eq_0_iff) 
    then show ?thesis by simp
  next
    case False
    then have pos: "0 < n div 2" by simp
    from "1.IH" [OF _ pos] "1.prems"
    have ih: "2 ^ (bit_length (n div 2) - 1) \<le> n div 2" "n div 2 < 2 ^ bit_length (n div 2)"
      by simp_all
    have bl: "bit_length n = Suc (bit_length (n div 2))"
      using "1.prems" by (subst bit_length.simps) simp
    have blpos: "0 < bit_length (n div 2)"
      using pos by (subst bit_length.simps) simp
    then obtain m where m: "bit_length (n div 2) = Suc m"
      by (cases "bit_length (n div 2)") auto
    from ih(1) have "2 * 2 ^ m \<le> n" unfolding m by simp
    moreover from ih(2) have "n < 2 * 2 ^ bit_length (n div 2)" by simp
    ultimately show ?thesis
      unfolding bl m by simp
  qed
qed

lemma round_half_even_of_int [simp]: "round_half_even (of_int m) = m"
  by (simp add: round_half_even_def)

lemma round_binary64_nat:
  assumes "n < 2 ^ 53"
  shows "round_binary64 (of_nat n) = Some (of_nat n)"
proof (cases "n = 0")
  case True
  then show ?thesis by (simp add: round_binary64_def)
next
  case False
  then have pos: "0 < n" by simp
  define l where "l = bit_length n - 1"
  from bit_length_bounds [OF pos] have lo: "2 ^ l \<le> n" and hi: "n < 2 ^ bit_length n"
    by (simp_all add: l_def)
  have blpos: "0 < bit_length n"
    using pos by (subst bit_length.simps) simp
  then have bl: "bit_length n = Suc l" by (simp add: l_def)
  from lo assms have "(2::nat) ^ l < 2 ^ 53" by (rule le_less_trans)
  then have "l < 53"
    by (simp only: power_strict_increasing_iff one_less_numeral_iff semiring_norm)
  then have l52: "l \<le> 52" by simp
  have q: "quotient_of (of_nat n) = (int n, 1)"
    using quotient_of_int [of "int n"] by simp
  have b1: "bit_length (nat 1) = 1" by simp
  have "(2::rat) ^ l \<le> of_nat n"
    using lo by (metis of_nat_le_iff of_nat_numeral of_nat_power)
  then have e: "binary_exponent (of_nat n) = int l"
    unfolding binary_exponent_def q by (simp add: bl b1 two_pow_def)
  have ulp: "two_pow (int l - 52) = 1 / 2 ^ (52 - l)"
    using l52 by (auto simp: two_pow_def nat_diff_distrib')
  have "(of_nat n :: rat) / (1 / 2 ^ (52 - l)) = of_int (int n * 2 ^ (52 - l))"
    by simp
  then have r: "of_int (round_half_even (of_nat n / (1 / 2 ^ (52 - l)))) * (1 / 2 ^ (52 - l)) = (of_nat n :: rat)"
    by (simp only: round_half_even_of_int) simp
  have "(of_nat n :: rat) < 2 ^ 53"
    using assms by (metis of_nat_less_iff of_nat_numeral of_nat_power)
  also have "\<dots> < 2 ^ 1024" by simp
  finally have big: "(of_nat n :: rat) < two_pow 1024"
    by (simp add: two_pow_def)
  have ne: "(of_nat n :: rat) \<noteq> 0" using False by simp
  have m: "max (int l) (- 1022) = int l" by simp
  show ?thesis
    unfolding round_binary64_def e Let_def m ulp r using ne big
    by (simp only: if_False if_True)
qed

lemma to_number_nat: "n < 2 ^ 53 \<Longrightarrow> to_number s (of_nat n) = Finite s (of_nat n)"
  by (simp add: to_number_def round_binary64_nat)

lemma to_number_numeral: "numeral k < (2::nat) ^ 53 \<Longrightarrow> to_number s (numeral k) = Finite s (numeral k)"
  using to_number_nat [of "numeral k" s] by simp

lemma to_number_0 [simp]: "to_number s 0 = Finite s 0"
  by (simp add: to_number_def round_binary64_def)

lemma to_number_1 [simp]: "to_number s 1 = Finite s 1"
  using to_number_nat [of 1 s] by simp

lemmas parse_eval =
  parseFloat_def parseInt_def is_white_def is_digit_def is_negative_def has_sign_def
  drop_sign_def exponent_part_def decimal_value_def digit_value_def pow10_def str_def
  is_radix_digit_def radix_digit_value_def to_number_numeral Let_def

section \<open>The outcome of \<open>proccess\<close>\<close>

lemma proccess_cases:
  "proccess cents d s =
     (if \<not> passes_gate d then rejected (str ''Invalid CPF or CNPJ'') d s
      else if length (ICSVData.nrCpfCnpj d) = 11 \<and> \<not> validateCPF (ICSVData.nrCpfCnpj d)
      then rejected (str ''Invalid CPF'') d s
      else if length (ICSVData.nrCpfCnpj d) = 14 \<and> \<not> validateCNPJ (ICSVData.nrCpfCnpj d)
      then rejected (str ''Invalid CNPJ'') d s
      else if \<not> validateInstallments d then rejected (str ''Invalid Installments'') d s
      else accepted cents d s)"
  by (simp add: proccess_def passes_gate_def accepted_def rejected_def push_error_def Let_def)

lemma reasons_distinct:
  "str ''Invalid CPF or CNPJ'' \<noteq> str ''Invalid CPF''"
  "str ''Invalid CPF or CNPJ'' \<noteq> str ''Invalid CNPJ''"
  "str ''Invalid CPF or CNPJ'' \<noteq> str ''Invalid Installments''"
  "str ''Invalid CPF'' \<noteq> str ''Invalid CNPJ''"
  "str ''Invalid CPF'' \<noteq> str ''Invalid Installments''"
  "str ''Invalid CNPJ'' \<noteq> str ''Invalid Installments''"
  by (simp_all add: str_def)

lemma error_results_rejected [simp]:
  "error_results (rejected r d s) = error_results s @ [\<lparr> error = r, data = d \<rparr>]"
  "success_results (rejected r d s) = success_results s"
  "count (rejected r d s) = count s + 1"
  "console (rejected r d s) = console s"
  "batchSize (rejected r d s) = batchSize s"
  by (simp_all add: rejected_def)

lemma fields_accepted [simp]:
  "error_results (accepted cents d s) = error_results s"
  "success_results (accepted cents d s) = success_results s @ [normalize cents d]"
  "count (accepted cents d s) = count s + 1"
  "console (accepted cents d s) = console s"
  "batchSize (accepted cents d s) = batchSize s"
  by (simp_all add: accepted_def)

section \<open>Concrete rows, and the branch that \<open>proccess\<close> takes\<close>

lemma example_fields [simp]:
  "ICSVData.nrCpfCnpj example_row = str ''11144477735''"
  "ICSVData.vlTotal example_row = str ''1000.00''"
  "ICSVData.qtPrestacoes example_row = str ''10''"
  "ICSVData.vlPresta example_row = str ''100.00''"
  by (simp_all add: example_row_def)

lemma parseFloat_1000: "parseFloat (str ''1000.00'') = Finite False 1000"
  by (simp add: parse_eval)

lemma parseFloat_100: "parseFloat (str ''100.00'') = Finite False 100"
  by (simp add: parse_eval)

lemma parseFloat_99: "parseFloat (str ''99.00'') = Finite False 99"
  by (simp add: parse_eval)

lemma parseInt_10: "parseInt (str ''10'') 0 = Finite False 10"
  by (simp add: parse_eval)

lemma validateInstallments_fields:
  "validateInstallments (d\<lparr> ICSVData.nrCpfCnpj := c \<rparr>) = validateInstallments d"
  by (simp add: validateInstallments_def)

lemma validateInstallments_example: "validateInstallments example_row"
  by (simp add: validateInstallments_def parseFloat_1000 parseFloat_100 parseInt_10
      to_number_numeral)

lemma validateInstallments_example_99:
  "\<not> validateInstallments (example_row\<lparr> ICSVData.vlPresta := str ''99.00'' \<rparr>)"
  by (simp add: validateInstallments_def parseFloat_1000 parseFloat_99 parseInt_10
      to_number_numeral)

text \<open>
  Claim C3. Once the gate has passed, \<open>proccess\<close> records the reason \<open>Invalid CPF\<close>
  exactly when the original, unstripped field has length 11 and \<open>validateCPF\<close> fails on
  it, and the reason \<open>Invalid CNPJ\<close> exactly when the original field has length 14 and
  \<open>validateCNPJ\<close> fails on it: the branch is chosen by the length of the field as it
  came, not by the number of digits that remain.
\<close>

theorem proccess_checksum_branch:
  assumes "passes_gate d"
  shows "(error_results (proccess cents d s)
            = error_results s @ [\<lparr> error = str ''Invalid CPF'', data = d \<rparr>]
          \<longleftrightarrow> length (ICSVData.nrCpfCnpj d) = 11 \<and> \<not> validateCPF (ICSVData.nrCpfCnpj d)) \<and>
         (error_results (proccess cents d s)
            = error_results s @ [\<lparr> error = str ''Invalid CNPJ'', data = d \<rparr>]
          \<longleftrightarrow> length (ICSVData.nrCpfCnpj d) = 14 \<and> \<not> validateCNPJ (ICSVData.nrCpfCnpj d))"
  using assms reasons_distinct by (auto simp: proccess_cases)

text \<open>
  The punctuated identifier \<open>111.444.777-35\<close> has eleven digits and a valid check sum as
  a CPF, and length 14: it takes the CNPJ branch and is rejected there.
\<close>

lemma passes_gate_punctuated:
  "passes_gate (example_row\<lparr> ICSVData.nrCpfCnpj := str ''111.444.777-35'' \<rparr>)"
  by (simp add: passes_gate_def replace_non_digits_def str_def is_digit_def)

lemma validateCPF_punctuated: "validateCPF (str ''111.444.777-35'')"
  by (simp add: validateCPF_eq rule_eval)

lemma validateCNPJ_punctuated: "\<not> validateCNPJ (str ''111.444.777-35'')"
  by (simp add: validateCNPJ_eq rule_eval)

theorem proccess_checksum_branch_witness:
  "passes_gate (example_row\<lparr> ICSVData.nrCpfCnpj := str ''111.444.777-35'' \<rparr>) \<and>
   validateCPF (str ''111.444.777-35'') \<and>
   error_results
     (proccess ecma402_cents (example_row\<lparr> ICSVData.nrCpfCnpj := str ''111.444.777-35'' \<rparr>)
        (constructor [] None))
     = [\<lparr> error = str ''Invalid CNPJ'',
          data = example_row\<lparr> ICSVData.nrCpfCnpj := str ''111.444.777-35'' \<rparr> \<rparr>]"
proof -
  let ?d = "example_row\<lparr> ICSVData.nrCpfCnpj := str ''111.444.777-35'' \<rparr>"
  have len: "length (ICSVData.nrCpfCnpj ?d) = 14"
    by (simp add: str_def)
  have bad: "\<not> validateCNPJ (ICSVData.nrCpfCnpj ?d)"
    using validateCNPJ_punctuated by simp
  have e: "error_results (constructor [] None) = []"
    by (simp add: constructor_def)
  from proccess_checksum_branch [OF passes_gate_punctuated, of ecma402_cents "constructor [] None"]
    len bad e
  have "error_results (proccess ecma402_cents ?d (constructor [] None))
      = [\<lparr> error = str ''Invalid CNPJ'', data = ?d \<rparr>]"
    by simp
  with passes_gate_punctuated validateCPF_punctuated show ?thesis
    by simp
qed

text \<open>
  Claim C4. A record whose field strips to eleven or fourteen digits, while the field
  itself has neither length 11 nor length 14, meets no check sum validation: the outcome
  is decided by the installment check alone, and the record is accepted whenever that
  check passes, whatever \<open>validateCPF\<close> and \<open>validateCNPJ\<close> say about its digits.
\<close>

theorem proccess_skips_checksum:
  assumes "passes_gate d"
    and "length (ICSVData.nrCpfCnpj d) \<noteq> 11"
    and "length (ICSVData.nrCpfCnpj d) \<noteq> 14"
  shows "proccess cents d s =
           (if validateInstallments d then accepted cents d s
            else rejected (str ''Invalid Installments'') d s)"
  using assms by (simp add: proccess_cases)

text \<open>
  The field \<open>1-1111111111\<close> of length 12: eleven identical digits, which both validators
  refuse, and the record is accepted.
\<close>

theorem proccess_skips_checksum_witness:
  "passes_gate (example_row\<lparr> ICSVData.nrCpfCnpj := str ''1-1111111111'' \<rparr>) \<and>
   length (str ''1-1111111111'') = 12 \<and>
   \<not> validateCPF (str ''1-1111111111'') \<and>
   \<not> validateCNPJ (str ''1-1111111111'') \<and>
   repeated_digit 10 (replace_non_digits (str ''1-1111111111'')) \<and>
   proccess ecma402_cents (example_row\<lparr> ICSVData.nrCpfCnpj := str ''1-1111111111'' \<rparr>) (constructor [] None)
     = accepted ecma402_cents (example_row\<lparr> ICSVData.nrCpfCnpj := str ''1-1111111111'' \<rparr>) (constructor [] None)"
proof -
  let ?d = "example_row\<lparr> ICSVData.nrCpfCnpj := str ''1-1111111111'' \<rparr>"
  have g: "passes_gate ?d"
    by (simp add: passes_gate_def replace_non_digits_def str_def is_digit_def)
  have l: "length (str ''1-1111111111'') = 12"
    by (simp add: str_def)
  have l11: "length (ICSVData.nrCpfCnpj ?d) \<noteq> 11" and l14: "length (ICSVData.nrCpfCnpj ?d) \<noteq> 14"
    by (simp_all add: str_def)
  have v: "validateInstallments ?d"
    using validateInstallments_example by (simp add: validateInstallments_fields)
  have c: "\<not> validateCPF (str ''1-1111111111'')"
    by (simp add: validateCPF_eq rule_eval)
  have n: "\<not> validateCNPJ (str ''1-1111111111'')"
    by (simp add: validateCNPJ_eq rule_eval)
  have rep: "replicate 10 c = [c, c, c, c, c, c, c, c, c, c]" for c :: code_unit
    by (simp add: eval_nat_numeral)
  have r: "repeated_digit 10 (replace_non_digits (str ''1-1111111111''))"
    by (simp add: repeated_digit_def replace_non_digits_def str_def is_digit_def rep)
  from proccess_skips_checksum [OF g l11 l14, of ecma402_cents "constructor [] None"] v
  have "proccess ecma402_cents ?d (constructor [] None)
      = accepted ecma402_cents ?d (constructor [] None)"
    by simp
  with g l c n r show ?thesis
    by blast
qed

text \<open>
  Claim C10. \<open>resetData\<close> is idempotent: from any state, one call and two calls in a row
  give the same state, with both collections empty and the count at 0.
\<close>

theorem resetData_idempotent:
  "resetData (resetData s) = resetData s \<and>
   success_results (resetData s) = [] \<and> error_results (resetData s) = [] \<and>
   count (resetData s) = 0 \<and>
   success_results (resetData (resetData s)) = [] \<and>
   error_results (resetData (resetData s)) = [] \<and> count (resetData (resetData s)) = 0"
  by (simp add: resetData_def)

section \<open>The count invariant and the single reason\<close>

lemma reasons_set:
  "str ''Invalid CPF or CNPJ'' \<in> set reasons" "str ''Invalid CPF'' \<in> set reasons"
  "str ''Invalid CNPJ'' \<in> set reasons" "str ''Invalid Installments'' \<in> set reasons"
  by (simp_all add: reasons_def)

lemma count_invariant_rejected:
  "count_invariant s \<Longrightarrow> count_invariant (rejected r d s)"
  by (simp add: count_invariant_def)

lemma count_invariant_accepted:
  "count_invariant s \<Longrightarrow> count_invariant (accepted cents d s)"
  by (simp add: count_invariant_def)

lemma count_invariant_proccess:
  "count_invariant s \<Longrightarrow> count_invariant (proccess cents d s)"
  by (simp add: proccess_cases count_invariant_rejected count_invariant_accepted)

lemma proccessBatch_flushed: "proccessBatch s = flushed s"
  by (simp add: proccessBatch_def resetData_def flushed_def)

lemma count_invariant_flushed: "count_invariant (flushed s)"
  by (simp add: flushed_def count_invariant_def)

lemma count_invariant_on_data:
  "count_invariant s \<Longrightarrow> count_invariant (on_data cents d s)"
  by (simp add: on_data_def Let_def proccessBatch_flushed count_invariant_flushed
      count_invariant_proccess)

lemma proccess_appends_one:
  "count (proccess cents d s) = count s + 1 \<and>
   ((\<exists>x. success_results (proccess cents d s) = success_results s @ [x] \<and>
         error_results (proccess cents d s) = error_results s) \<or>
    (\<exists>e. error_results (proccess cents d s) = error_results s @ [e] \<and>
         success_results (proccess cents d s) = success_results s))"
  by (simp add: proccess_cases)

text \<open>
  Claim C6. The count equals the number of accepted plus the number of rejected
  outcomes: this holds for a new object, after \<open>resetData\<close> and after \<open>proccessBatch\<close>;
  every call of \<open>proccess\<close> adds one to the count and appends exactly one entry to
  exactly one of the two collections, so it keeps the invariant, and so does the \<open>data\<close>
  handler of the driving loop. \<open>getCsvData\<close> and \<open>run\<close> end with a flush, and so in
  the invariant.
\<close>

theorem count_invariant_holds:
  "count_invariant (constructor path batch) \<and>
   count_invariant (resetData s) \<and>
   count_invariant (proccessBatch s) \<and>
   count (proccess cents d s) = count s + 1 \<and>
   ((\<exists>x. success_results (proccess cents d s) = success_results s @ [x] \<and>
         error_results (proccess cents d s) = error_results s) \<or>
    (\<exists>e. error_results (proccess cents d s) = error_results s @ [e] \<and>
         success_results (proccess cents d s) = success_results s)) \<and>
   (count_invariant s \<longrightarrow> count_invariant (proccess cents d s)) \<and>
   (count_invariant s \<longrightarrow> count_invariant (on_data cents d s)) \<and>
   count_invariant (getCsvData cents rows s) \<and>
   count_invariant (run cents rows s)"
proof -
  have "count_invariant (getCsvData cents rows s)"
    by (simp add: getCsvData_def on_end_def proccessBatch_flushed count_invariant_flushed)
  moreover have "count_invariant (run cents rows s)"
    by (simp add: run_def getCsvData_def on_end_def proccessBatch_flushed
        count_invariant_flushed)
  moreover
  have "count_invariant (constructor path batch)"
    by (simp add: count_invariant_def constructor_def)
  moreover have "count_invariant (resetData s)"
    by (simp add: count_invariant_def resetData_def)
  moreover have "count_invariant (proccessBatch s)"
    by (simp add: proccessBatch_flushed count_invariant_flushed)
  ultimately show ?thesis
    using proccess_appends_one [of cents d s] count_invariant_proccess [of s cents d]
      count_invariant_on_data [of s cents d]
    by blast
qed

theorem count_invariant_holds_witness:
  "count_invariant (constructor [] None) \<and>
   count_invariant (proccess ecma402_cents example_row (constructor [] None)) \<and>
   count_invariant (on_data ecma402_cents example_row (constructor [] None)) \<and>
   count (proccess ecma402_cents example_row (constructor [] None)) = 1"
proof -
  have c: "count (constructor [] None) = 0"
    by (simp add: constructor_def)
  from count_invariant_holds
    [of "[]" None "constructor [] None" ecma402_cents example_row "[]"] c
  show ?thesis
    by simp
qed

text \<open>
  Claim C8. \<open>proccess\<close> is total: on every record it returns a state, with no exception
  to raise. That state is the accepted one, when every check passes, or the rejected one
  with a single reason of the four, paired with the record as it came. The reason is that
  of the first check that fails, in the order gate, check sum, installments.
\<close>

theorem proccess_one_reason:
  "(proccess cents d s = accepted cents d s \<and>
      passes_gate d \<and>
      \<not> (length (ICSVData.nrCpfCnpj d) = 11 \<and> \<not> validateCPF (ICSVData.nrCpfCnpj d)) \<and>
      \<not> (length (ICSVData.nrCpfCnpj d) = 14 \<and> \<not> validateCNPJ (ICSVData.nrCpfCnpj d)) \<and>
      validateInstallments d) \<or>
   (\<exists>r. r \<in> set reasons \<and> proccess cents d s = rejected r d s \<and>
      (r = str ''Invalid CPF or CNPJ'' \<longleftrightarrow> \<not> passes_gate d) \<and>
      (r = str ''Invalid CPF'' \<longleftrightarrow>
         passes_gate d \<and> length (ICSVData.nrCpfCnpj d) = 11 \<and>
         \<not> validateCPF (ICSVData.nrCpfCnpj d)) \<and>
      (r = str ''Invalid CNPJ'' \<longleftrightarrow>
         passes_gate d \<and> length (ICSVData.nrCpfCnpj d) = 14 \<and>
         \<not> validateCNPJ (ICSVData.nrCpfCnpj d)) \<and>
      (r = str ''Invalid Installments'' \<longleftrightarrow>
         passes_gate d \<and>
         \<not> (length (ICSVData.nrCpfCnpj d) = 11 \<and> \<not> validateCPF (ICSVData.nrCpfCnpj d)) \<and>
         \<not> (length (ICSVData.nrCpfCnpj d) = 14 \<and> \<not> validateCNPJ (ICSVData.nrCpfCnpj d)) \<and>
         \<not> validateInstallments d))"
proof (cases "passes_gate d")
  case False
  then have "proccess cents d s = rejected (str ''Invalid CPF or CNPJ'') d s"
    by (simp add: proccess_cases)
  with False reasons_set(1) reasons_distinct show ?thesis
    by (intro disjI2 exI [of _ "str ''Invalid CPF or CNPJ''"]) simp
next
  case gate: True
  show ?thesis
  proof (cases "length (ICSVData.nrCpfCnpj d) = 11 \<and> \<not> validateCPF (ICSVData.nrCpfCnpj d)")
    case True
    with gate have "proccess cents d s = rejected (str ''Invalid CPF'') d s"
      by (simp add: proccess_cases)
    with gate True reasons_set(2) reasons_distinct show ?thesis
      by (intro disjI2 exI [of _ "str ''Invalid CPF''"]) simp
  next
    case cpf: False
    show ?thesis
    proof (cases "length (ICSVData.nrCpfCnpj d) = 14 \<and> \<not> validateCNPJ (ICSVData.nrCpfCnpj d)")
      case True
      with gate cpf have "proccess cents d s = rejected (str ''Invalid CNPJ'') d s"
        by (auto simp: proccess_cases)
      with gate True reasons_set(3) reasons_distinct show ?thesis
        by (intro disjI2 exI [of _ "str ''Invalid CNPJ''"]) auto
    next
      case cnpj: False
      show ?thesis
      proof (cases "validateInstallments d")
        case True
        with gate cpf cnpj show ?thesis
          by (intro disjI1) (auto simp: proccess_cases)
      next
        case False
        with gate cpf cnpj have "proccess cents d s = rejected (str ''Invalid Installments'') d s"
          by (auto simp: proccess_cases)
        with gate cpf cnpj False reasons_set(4) reasons_distinct show ?thesis
          by (intro disjI2 exI [of _ "str ''Invalid Installments''"]) auto
      qed
    qed
  qed
qed

theorem proccess_one_reason_witness:
  "proccess ecma402_cents (example_row\<lparr> ICSVData.vlPresta := str ''99.00'' \<rparr>)
       (constructor [] None)
     = rejected (str ''Invalid Installments'')
         (example_row\<lparr> ICSVData.vlPresta := str ''99.00'' \<rparr>) (constructor [] None)"
proof -
  let ?d = "example_row\<lparr> ICSVData.vlPresta := str ''99.00'' \<rparr>"
  have g: "passes_gate ?d"
    by (simp add: passes_gate_def replace_non_digits_def str_def is_digit_def)
  have c: "validateCPF (ICSVData.nrCpfCnpj ?d)"
    using cpf_11144477735 by simp
  have l: "length (ICSVData.nrCpfCnpj ?d) \<noteq> 14"
    by (simp add: str_def)
  from proccess_one_reason [of ecma402_cents ?d "constructor [] None"]
    g c l validateInstallments_example_99
  show ?thesis
    by auto
qed

section \<open>The driving loop\<close>

lemma proccess_keeps [simp]:
  "batchSize (proccess cents d s) = batchSize s"
  "console (proccess cents d s) = console s"
  "count (proccess cents d s) = count s + 1"
  by (simp_all add: proccess_cases)

lemma proccess_all_Nil [simp]: "proccess_all cents [] s = s"
  by (simp add: proccess_all_def)

lemma proccess_all_Cons [simp]:
  "proccess_all cents (d # rows) s = proccess_all cents rows (proccess cents d s)"
  by (simp add: proccess_all_def)

lemma proccess_all_snoc:
  "proccess_all cents (rows @ [d]) s = proccess cents d (proccess_all cents rows s)"
  by (simp add: proccess_all_def)

lemma proccess_all_keeps [simp]:
  "batchSize (proccess_all cents rows s) = batchSize s"
  "console (proccess_all cents rows s) = console s"
  "count (proccess_all cents rows s) = count s + length rows"
  by (induction rows arbitrary: s) simp_all

lemma count_invariant_proccess_all:
  "count_invariant s \<Longrightarrow> count_invariant (proccess_all cents rows s)"
  by (induction rows arbitrary: s) (simp_all add: count_invariant_proccess)

lemma submit_rows_Nil [simp]: "submit_rows cents [] s = s"
  by (simp add: submit_rows_def)

lemma submit_rows_Cons [simp]:
  "submit_rows cents (d # rows) s = submit_rows cents rows (on_data cents d s)"
  by (simp add: submit_rows_def)

lemma submit_rows_snoc:
  "submit_rows cents (rows @ [d]) s = on_data cents d (submit_rows cents rows s)"
  by (simp add: submit_rows_def)

text \<open>Below the batch size no row triggers a flush.\<close>

lemma submit_rows_below:
  "int (count s) + int (length rows) < batchSize s \<Longrightarrow>
   submit_rows cents rows s = proccess_all cents rows s"
proof (induction rows arbitrary: s)
  case Nil
  show ?case by simp
next
  case (Cons d rows)
  from Cons.prems have "on_data cents d s = proccess cents d s"
    by (simp add: on_data_def Let_def)
  moreover from Cons.prems
  have "int (count (proccess cents d s)) + int (length rows) < batchSize (proccess cents d s)"
    by simp
  ultimately show ?case
    using Cons.IH [of "proccess cents d s"] by simp
qed

lemma submit_rows_full:
  assumes "0 < batchSize s" and "count s = 0" and "int (length rows) = batchSize s"
  shows "submit_rows cents rows s = flushed (proccess_all cents rows s)"
proof -
  from assms have "rows \<noteq> []" by auto
  then obtain xs x where rows: "rows = xs @ [x]"
    by (metis rev_exhaust)
  with assms have below: "int (count s) + int (length xs) < batchSize s"
    by simp
  have "submit_rows cents rows s = on_data cents x (proccess_all cents xs s)"
    unfolding rows submit_rows_snoc submit_rows_below [OF below] ..
  also have "\<dots> = proccessBatch (proccess_all cents rows s)"
    using assms by (simp add: on_data_def Let_def rows proccess_all_snoc)
  finally show ?thesis
    by (simp add: proccessBatch_flushed)
qed

lemma flushed_fields [simp]:
  "success_results (flushed s) = []" "error_results (flushed s) = []" "count (flushed s) = 0"
  "batchSize (flushed s) = batchSize s"
  "console (flushed s) = console s
     @ [Registros_com_erro (error_results s), Registros_corretos (success_results s)]"
  by (simp_all add: flushed_def)

lemma resetData_fields [simp]:
  "success_results (resetData s) = []" "error_results (resetData s) = []"
  "count (resetData s) = 0" "batchSize (resetData s) = batchSize s"
  "console (resetData s) = console s"
  by (simp_all add: resetData_def)

text \<open>
  Claim C7. With a positive batch size and a freshly reset processor: the \<open>data\<close>
  handler run on exactly \<open>batchSize\<close> rows ends in the flushed state of all of them
  (one pair of lines more on the console, holding the outcomes of all the rows, the
  collections empty and the count 0); run on \<open>batchSize - 1\<close> rows it flushes nothing,
  and the \<open>end\<close> handler then flushes that partial batch once. After every
  \<open>proccessBatch\<close> the collections are empty and the count is 0.
\<close>

theorem batch_boundary:
  assumes "0 < batchSize s"
  shows "(int (length rows) = batchSize s \<longrightarrow>
            submit_rows cents rows (resetData s)
              = flushed (proccess_all cents rows (resetData s))) \<and>
         (int (length rows) = batchSize s - 1 \<longrightarrow>
            submit_rows cents rows (resetData s) = proccess_all cents rows (resetData s) \<and>
            console (submit_rows cents rows (resetData s)) = console s \<and>
            getCsvData cents rows (resetData s)
              = flushed (proccess_all cents rows (resetData s))) \<and>
         console (flushed (proccess_all cents rows (resetData s)))
           = console s
             @ [Registros_com_erro (error_results (proccess_all cents rows (resetData s))),
                Registros_corretos (success_results (proccess_all cents rows (resetData s)))] \<and>
         length (success_results (proccess_all cents rows (resetData s)))
           + length (error_results (proccess_all cents rows (resetData s))) = length rows \<and>
         success_results (proccessBatch t) = [] \<and> error_results (proccessBatch t) = [] \<and>
         count (proccessBatch t) = 0"
proof -
  have full: "submit_rows cents rows (resetData s) = flushed (proccess_all cents rows (resetData s))"
    if "int (length rows) = batchSize s"
    using submit_rows_full [of "resetData s" rows cents] assms that by simp
  have part: "submit_rows cents rows (resetData s) = proccess_all cents rows (resetData s)"
    if "int (length rows) = batchSize s - 1"
    using submit_rows_below [of "resetData s" rows cents] that by simp
  have inv: "count_invariant (proccess_all cents rows (resetData s))"
    by (rule count_invariant_proccess_all) (simp add: count_invariant_def)
  then have len: "length (success_results (proccess_all cents rows (resetData s)))
           + length (error_results (proccess_all cents rows (resetData s))) = length rows"
    by (simp add: count_invariant_def)
  show ?thesis
    using full part len
    by (simp add: getCsvData_def on_end_def proccessBatch_flushed)
qed

theorem batch_boundary_witness:
  "submit_rows ecma402_cents [example_row, example_row] (resetData (constructor [] (Some 2)))
     = flushed (proccess_all ecma402_cents [example_row, example_row]
         (resetData (constructor [] (Some 2)))) \<and>
   submit_rows ecma402_cents [example_row] (resetData (constructor [] (Some 2)))
     = proccess_all ecma402_cents [example_row] (resetData (constructor [] (Some 2))) \<and>
   getCsvData ecma402_cents [example_row] (resetData (constructor [] (Some 2)))
     = flushed (proccess_all ecma402_cents [example_row] (resetData (constructor [] (Some 2))))"
proof -
  have b: "batchSize (constructor [] (Some 2)) = 2"
    by (simp add: constructor_def)
  then have p: "0 < batchSize (constructor [] (Some 2))"
    by simp
  from batch_boundary [OF p, of "[example_row, example_row]" ecma402_cents]
    batch_boundary [OF p, of "[example_row]" ecma402_cents] b
  show ?thesis
    by simp
qed

text \<open>
  After exactly \<open>batchSize\<close> rows the end of the stream flushes once more, an empty
  batch.
\<close>

lemma getCsvData_full:
  assumes "0 < batchSize s" and "int (length rows) = batchSize s"
  shows "getCsvData cents rows (resetData s)
           = flushed (flushed (proccess_all cents rows (resetData s)))"
  using submit_rows_full [of "resetData s" rows cents] assms
  by (simp add: getCsvData_def on_end_def proccessBatch_flushed)

section \<open>validateCNPJ\<close>

text \<open>
  Claim C2. \<open>validateCNPJ\<close>, on any string, strips the code units that are not digits
  and returns true exactly when fourteen digits remain, they are not all identical, and
  both check digits match the weighted sum rule (weights 5, 4, 3, 2, 9, 8, 7, 6, 5, 4, 3,
  2 over digits 0 to 11 against digit 12, weights 6, 5, 4, 3, 2, 9, 8, 7, 6, 5, 4, 3, 2
  over digits 0 to 12 against digit 13). It accepts \<open>11444777000161\<close> and rejects every
  string of fourteen identical digits.
\<close>

theorem validateCNPJ_checksum_rule:
  "validateCNPJ s = cnpj_rule s \<and>
   validateCNPJ (str ''11444777000161'') \<and>
   (\<forall>c. is_digit c \<longrightarrow> \<not> validateCNPJ (replicate 14 c))"
  using validateCNPJ_eq cnpj_11444777000161 cnpj_repeated by blast

theorem validateCNPJ_checksum_rule_witness:
  "validateCNPJ (str ''11.444.777/0001-61'') \<and> \<not> validateCNPJ (str ''00000000000000'')"
proof -
  have r: "cnpj_rule (str ''11.444.777/0001-61'')"
    by (simp add: rule_eval)
  have d: "is_digit 0x30"
    by (simp add: is_digit_def)
  have e: "replicate 14 (0x30 :: code_unit) = str ''00000000000000''"
    by (simp add: str_def eval_nat_numeral)
  from validateCNPJ_checksum_rule [of "str ''11.444.777/0001-61''"]
  have "validateCNPJ (str ''11.444.777/0001-61'') = cnpj_rule (str ''11.444.777/0001-61'')"
    and "\<forall>c. is_digit c \<longrightarrow> \<not> validateCNPJ (replicate 14 c)"
    by blast+
  with r d e show ?thesis
    by metis
qed

section \<open>The normalised record\<close>

lemma digit_unit_is_digit:
  assumes "d < 10"
  shows "is_digit (digit_unit d)"
proof -
  have "unat (of_nat (48 + d) :: code_unit) = (48 + d) mod 2 ^ 16"
    by (simp only: unat_of_nat) simp
  also have "\<dots> = 48 + d"
    using assms by simp
  finally show ?thesis
    using assms by (simp only: is_digit_unat digit_unit_def) simp
qed

lemma decimal_digits_are_digits: "c \<in> set (decimal_digits n) \<Longrightarrow> is_digit c"
proof (induction n rule: decimal_digits.induct)
  case (1 n)
  show ?case
  proof (cases "n < 10")
    case True
    with "1.prems" show ?thesis
      by (subst (asm) decimal_digits.simps) (simp add: digit_unit_is_digit)
  next
    case False
    with "1.prems" have "c \<in> set (decimal_digits (n div 10)) \<or> c = digit_unit (n mod 10)"
      by (subst (asm) decimal_digits.simps) auto
    with False "1.IH" show ?thesis
      by (auto simp: digit_unit_is_digit)
  qed
qed

lemma group_thousands_set: "set (group_thousands ds) \<subseteq> insert 0x2E (set ds)"
proof (induction ds rule: group_thousands.induct)
  case (1 ds)
  show ?case
  proof (cases "length ds \<le> 3")
    case True
    then show ?thesis
      by (subst group_thousands.simps) auto
  next
    case False
    have "set (take (length ds - 3) ds) \<subseteq> set ds" "set (drop (length ds - 3) ds) \<subseteq> set ds"
      by (auto dest: in_set_takeD in_set_dropD)
    with False "1.IH" show ?thesis
      by (subst group_thousands.simps) auto
  qed
qed

lemma comma_not_digit: "\<not> is_digit 0x2C"
  by (simp add: is_digit_def)

lemma no_comma_in_integer_part: "0x2C \<notin> set (group_thousands (decimal_digits n))"
proof
  assume "0x2C \<in> set (group_thousands (decimal_digits n))"
  with group_thousands_set [of "decimal_digits n"]
  have "(0x2C :: code_unit) = 0x2E \<or> 0x2C \<in> set (decimal_digits n)"
    by auto
  then show False
    using decimal_digits_are_digits [of "0x2C" n] comma_not_digit by simp
qed

lemma two_fraction_digits_append:
  "two_fraction_digits (p @ [0x2C, a, b]) \<longleftrightarrow> is_digit a \<and> is_digit b \<and> 0x2C \<notin> set p"
  by (simp add: two_fraction_digits_def)

lemma two_fraction_digits_format_cents:
  assumes "0x2C \<notin> set p"
  shows "two_fraction_digits (p @ format_cents c)"
proof -
  have "p @ format_cents c =
      (p @ group_thousands (decimal_digits (c div 100)))
        @ [0x2C, digit_unit (c mod 100 div 10), digit_unit (c mod 10)]"
    by (simp add: format_cents_def)
  moreover have "c mod 100 div 10 < 10" "c mod 10 < 10"
    by auto
  ultimately show ?thesis
    using assms no_comma_in_integer_part [of "c div 100"]
    by (simp only: two_fraction_digits_append) (simp add: digit_unit_is_digit)
qed

lemma two_fraction_digits_finite:
  "two_fraction_digits (Intl_format_BRL cents (Finite s q))"
proof -
  have "0x2C \<notin> set (minus_sign s @ str ''R$'' @ [0xA0])"
    by (simp add: minus_sign_def str_def)
  from two_fraction_digits_format_cents [OF this, of "cents q"] show ?thesis
    by simp
qed

lemma formatCurrency_finite:
  assumes "is_finite (parseFloat v)"
  shows "two_fraction_digits (formatCurrency cents v)"
proof -
  from assms obtain s q where "parseFloat v = Finite s q"
    by (cases "parseFloat v") (simp_all add: is_finite_def)
  then have "formatCurrency cents v = Intl_format_BRL cents (Finite s q)"
    by (simp only: formatCurrency_def)
  then show ?thesis
    by (simp only: two_fraction_digits_finite)
qed

lemma formatCurrency_NaN:
  "parseFloat v = NaN \<Longrightarrow> formatCurrency cents v = str ''R$'' @ [0xA0] @ str ''NaN''"
  by (simp add: formatCurrency_def)

lemma not_two_fraction_digits_NaN: "\<not> two_fraction_digits (str ''R$'' @ [0xA0] @ str ''NaN'')"
  by (simp add: two_fraction_digits_def str_def is_digit_def)

lemma parseFloat_empty: "parseFloat (str '''') = NaN"
  by (simp add: parse_eval)

lemma accepted_if_changed:
  "success_results (proccess cents d s) \<noteq> success_results s \<Longrightarrow>
   proccess cents d s = accepted cents d s"
  by (auto simp: proccess_cases split: if_splits)

text \<open>
  Claim C9, as amended. For every accepted record, the entry appended to
  \<open>success_results\<close> has each of the ten integer fields equal to \<open>parseInt\<close> with radix
  10 of the raw field, each of the eight monetary fields equal to \<open>formatCurrency\<close> of
  the raw field, and the nine other fields unchanged. \<open>formatCurrency\<close> gives a string
  with exactly two fraction digits when the raw field parses to a finite number; a field
  that parses to \<open>NaN\<close> is rendered as \<open>R$ NaN\<close>.
\<close>

theorem normalized_record:
  assumes "success_results (proccess cents d s) \<noteq> success_results s"
  shows "success_results (proccess cents d s) = success_results s @ [normalize cents d] \<and>
    IData.nrInst (normalize cents d) = parseInt (ICSVData.nrInst d) 10 \<and>
    IData.nrAgencia (normalize cents d) = parseInt (ICSVData.nrAgencia d) 10 \<and>
    IData.cdClient (normalize cents d) = parseInt (ICSVData.cdClient d) 10 \<and>
    IData.nrContrato (normalize cents d) = parseInt (ICSVData.nrContrato d) 10 \<and>
    IData.qtPrestacoes (normalize cents d) = parseInt (ICSVData.qtPrestacoes d) 10 \<and>
    IData.cdProduto (normalize cents d) = parseInt (ICSVData.cdProduto d) 10 \<and>
    IData.cdCarteira (normalize cents d) = parseInt (ICSVData.cdCarteira d) 10 \<and>
    IData.nrProposta (normalize cents d) = parseInt (ICSVData.nrProposta d) 10 \<and>
    IData.nrPresta (normalize cents d) = parseInt (ICSVData.nrPresta d) 10 \<and>
    IData.nrSeqPre (normalize cents d) = parseInt (ICSVData.nrSeqPre d) 10 \<and>
    IData.vlTotal (normalize cents d) = formatCurrency cents (ICSVData.vlTotal d) \<and>
    IData.vlPresta (normalize cents d) = formatCurrency cents (ICSVData.vlPresta d) \<and>
    IData.vlMora (normalize cents d) = formatCurrency cents (ICSVData.vlMora d) \<and>
    IData.vlMulta (normalize cents d) = formatCurrency cents (ICSVData.vlMulta d) \<and>
    IData.vlOutAcr (normalize cents d) = formatCurrency cents (ICSVData.vlOutAcr d) \<and>
    IData.vlIof (normalize cents d) = formatCurrency cents (ICSVData.vlIof d) \<and>
    IData.vlDescon (normalize cents d) = formatCurrency cents (ICSVData.vlDescon d) \<and>
    IData.vlAtual (normalize cents d) = formatCurrency cents (ICSVData.vlAtual d) \<and>
    IData.nmClient (normalize cents d) = ICSVData.nmClient d \<and>
    IData.nrCpfCnpj (normalize cents d) = ICSVData.nrCpfCnpj d \<and>
    IData.dtContrato (normalize cents d) = ICSVData.dtContrato d \<and>
    IData.dsProduto (normalize cents d) = ICSVData.dsProduto d \<and>
    IData.dsCarteira (normalize cents d) = ICSVData.dsCarteira d \<and>
    IData.tpPresta (normalize cents d) = ICSVData.tpPresta d \<and>
    IData.dtVctPre (normalize cents d) = ICSVData.dtVctPre d \<and>
    IData.idSituac (normalize cents d) = ICSVData.idSituac d \<and>
    IData.idSitVen (normalize cents d) = ICSVData.idSitVen d \<and>
    (\<forall>v. is_finite (parseFloat v) \<longrightarrow> two_fraction_digits (formatCurrency cents v)) \<and>
    (\<forall>v. parseFloat v = NaN \<longrightarrow> formatCurrency cents v = str ''R$'' @ [0xA0] @ str ''NaN'')"
proof -
  from assms have "proccess cents d s = accepted cents d s"
    by (rule accepted_if_changed)
  then have "success_results (proccess cents d s) = success_results s @ [normalize cents d]"
    by simp
  then show ?thesis
    using formatCurrency_finite formatCurrency_NaN
    by (simp add: normalize_def)
qed

lemma example_mora_accepted:
  "proccess cents (example_row\<lparr> ICSVData.vlMora := v \<rparr>) s
     = accepted cents (example_row\<lparr> ICSVData.vlMora := v \<rparr>) s"
proof -
  let ?d = "example_row\<lparr> ICSVData.vlMora := v \<rparr>"
  have g: "passes_gate ?d"
    by (simp add: passes_gate_def replace_non_digits_def str_def is_digit_def)
  have c: "validateCPF (ICSVData.nrCpfCnpj ?d)"
    using cpf_11144477735 by simp
  have l: "length (ICSVData.nrCpfCnpj ?d) \<noteq> 14"
    by (simp add: str_def)
  have i: "validateInstallments ?d"
    using validateInstallments_example by (simp add: validateInstallments_def)
  from g c l i show ?thesis
    by (simp add: proccess_cases)
qed

text \<open>
  The claim as it was stated fails: nothing validates the late fee, so a record with an
  empty \<open>vlMora\<close> is accepted, and its late fee is rendered as \<open>R$ NaN\<close>, with no
  fraction digits.
\<close>

theorem normalized_record_counterexample:
  "success_results
     (proccess ecma402_cents (example_row\<lparr> ICSVData.vlMora := str '''' \<rparr>) (constructor [] None))
     = [normalize ecma402_cents (example_row\<lparr> ICSVData.vlMora := str '''' \<rparr>)] \<and>
   IData.vlMora (normalize ecma402_cents (example_row\<lparr> ICSVData.vlMora := str '''' \<rparr>))
     = str ''R$'' @ [0xA0] @ str ''NaN'' \<and>
   \<not> two_fraction_digits
       (IData.vlMora (normalize ecma402_cents (example_row\<lparr> ICSVData.vlMora := str '''' \<rparr>)))"
proof -
  have m: "IData.vlMora (normalize ecma402_cents (example_row\<lparr> ICSVData.vlMora := str '''' \<rparr>))
     = str ''R$'' @ [0xA0] @ str ''NaN''"
    using formatCurrency_NaN [OF parseFloat_empty] by (simp add: normalize_def)
  have e: "success_results (constructor [] None) = []"
    by (simp add: constructor_def)
  show ?thesis
    unfolding m example_mora_accepted using not_two_fraction_digits_NaN e
    by simp
qed

theorem normalized_record_witness:
  "success_results (proccess ecma402_cents example_row (constructor [] None))
     = [normalize ecma402_cents example_row] \<and>
   IData.vlTotal (normalize ecma402_cents example_row) = formatCurrency ecma402_cents (str ''1000.00'') \<and>
   two_fraction_digits (formatCurrency ecma402_cents (str ''1000.00''))"
proof -
  have a: "proccess ecma402_cents example_row (constructor [] None)
      = accepted ecma402_cents example_row (constructor [] None)"
    using example_mora_accepted [of ecma402_cents "str ''0.00''" "constructor [] None"]
    by (simp add: example_row_def)
  have e: "success_results (constructor [] None) = []"
    by (simp add: constructor_def)
  from a e have h: "success_results (proccess ecma402_cents example_row (constructor [] None))
      \<noteq> success_results (constructor [] None)"
    by simp
  have f: "is_finite (parseFloat (str ''1000.00''))"
    by (simp add: parseFloat_1000 is_finite_def)
  from normalized_record [OF h] e f show ?thesis
    by simp
qed

section \<open>The binary exponent, and rounding at a known exponent\<close>

lemma two_pow_powi: "two_pow e = 2 powi e"
  by (simp add: two_pow_def power_int_def inverse_eq_divide power_one_over)

lemma two_pow_mono: "e \<le> e' \<Longrightarrow> two_pow e \<le> two_pow e'"
  by (simp add: two_pow_powi power_int_increasing)

lemma two_pow_pos: "0 < two_pow e"
  by (simp add: two_pow_powi zero_less_power_int)

lemma two_pow_add: "two_pow (a + b) = two_pow a * two_pow b"
  by (simp add: two_pow_powi power_int_add)

lemma two_pow_nat: "two_pow (int n) = 2 ^ n"
  by (simp add: two_pow_powi)

lemma bit_length_rat:
  assumes "0 < a"
  shows "two_pow (int (bit_length (nat a)) - 1) \<le> of_int a"
    and "(of_int a :: rat) < two_pow (int (bit_length (nat a)))"
proof -
  from assms have pos: "0 < nat a" by simp
  from bit_length_bounds [OF pos]
  have lo: "2 ^ (bit_length (nat a) - 1) \<le> nat a" and hi: "nat a < 2 ^ bit_length (nat a)"
    by simp_all
  have blpos: "0 < bit_length (nat a)"
    using pos by (subst bit_length.simps) simp
  then have e: "int (bit_length (nat a)) - 1 = int (bit_length (nat a) - 1)"
    by simp
  have a: "(of_int a :: rat) = of_nat (nat a)"
    using assms by simp
  from lo have "(of_nat (2 ^ (bit_length (nat a) - 1)) :: rat) \<le> of_nat (nat a)"
    by (simp only: of_nat_le_iff)
  then show "two_pow (int (bit_length (nat a)) - 1) \<le> of_int a"
    unfolding e two_pow_nat a by simp
  from hi have "(of_nat (nat a) :: rat) < of_nat (2 ^ bit_length (nat a))"
    by (simp only: of_nat_less_iff)
  then show "(of_int a :: rat) < two_pow (int (bit_length (nat a)))"
    unfolding two_pow_nat a by simp
qed

lemma binary_exponent_bounds:
  assumes "0 < q"
  shows "two_pow (binary_exponent q) \<le> q \<and> q < two_pow (binary_exponent q + 1)"
proof -
  obtain a b where qab: "quotient_of q = (a, b)"
    by (cases "quotient_of q") auto
  then have b: "0 < b" and q: "q = of_int a / of_int b"
    by (simp_all add: quotient_of_denom_pos quotient_of_div)
  with assms have a: "0 < a"
    by (simp add: zero_less_divide_iff)
  define k where "k = int (bit_length (nat a)) - int (bit_length (nat b))"
  have B: "0 < (of_int b :: rat)" using b by simp
  have "q < two_pow (int (bit_length (nat a))) / of_int b"
    unfolding q using bit_length_rat(2) [OF a] B by (simp add: divide_strict_right_mono)
  also have "\<dots> \<le> two_pow (int (bit_length (nat a))) / two_pow (int (bit_length (nat b)) - 1)"
    using bit_length_rat(1) [OF b] two_pow_pos [of "int (bit_length (nat a))"]
      two_pow_pos [of "int (bit_length (nat b)) - 1"]
    by (simp add: frac_le)
  also have "\<dots> = two_pow (k + 1)"
    using two_pow_add [of "k + 1" "int (bit_length (nat b)) - 1"]
      two_pow_pos [of "int (bit_length (nat b)) - 1"]
    by (simp add: k_def field_simps)
  finally have hi: "q < two_pow (k + 1)" .
  have "two_pow (k - 1) = two_pow (int (bit_length (nat a)) - 1) / two_pow (int (bit_length (nat b)))"
    using two_pow_add [of "k - 1" "int (bit_length (nat b))"]
      two_pow_pos [of "int (bit_length (nat b))"]
    by (simp add: k_def field_simps)
  also have "\<dots> \<le> of_int a / two_pow (int (bit_length (nat b)))"
    using bit_length_rat(1) [OF a] two_pow_pos [of "int (bit_length (nat b))"]
    by (simp add: divide_right_mono)
  also have "\<dots> \<le> of_int a / of_int b"
    using bit_length_rat(2) [OF b] a B
    by (simp add: frac_le)
  finally have lo: "two_pow (k - 1) \<le> q"
    by (simp add: q)
  have be: "binary_exponent q = (if two_pow k \<le> q then k else k - 1)"
    by (simp add: binary_exponent_def qab k_def Let_def)
  show ?thesis
  proof (cases "two_pow k \<le> q")
    case True
    with be hi show ?thesis by simp
  next
    case False
    with be lo show ?thesis by simp
  qed
qed

lemma binary_exponent_unique:
  assumes "0 < q" and "two_pow e \<le> q" and "q < two_pow (e + 1)"
  shows "binary_exponent q = e"
proof (rule ccontr)
  assume ne: "binary_exponent q \<noteq> e"
  from binary_exponent_bounds [OF assms(1)]
  have lo: "two_pow (binary_exponent q) \<le> q" and hi: "q < two_pow (binary_exponent q + 1)"
    by simp_all
  show False
  proof (cases "binary_exponent q < e")
    case True
    then have "two_pow (binary_exponent q + 1) \<le> two_pow e"
      by (intro two_pow_mono) simp
    with hi assms(2) show False by simp
  next
    case False
    with ne have "two_pow (e + 1) \<le> two_pow (binary_exponent q)"
      by (intro two_pow_mono) simp
    with lo assms(3) show False by simp
  qed
qed

lemma round_binary64_exponent:
  assumes "0 < q" and "two_pow e \<le> q" and "q < two_pow (e + 1)" and "- 1022 \<le> e"
  shows "round_binary64 q =
    (let r = of_int (round_half_even (q / two_pow (e - 52))) * two_pow (e - 52)
     in if r < two_pow 1024 then Some r else None)"
  using assms binary_exponent_unique [OF assms(1-3)]
  by (simp add: round_binary64_def Let_def max_def)

lemma floor_rat_numeral: "\<lfloor>numeral a / numeral b :: rat\<rfloor> = numeral a div numeral b"
  by (metis floor_divide_of_int_eq of_int_numeral)

lemmas round_eval = two_pow_def round_half_even_def Let_def floor_rat_numeral

text \<open>
  \<open>0.3 / 3\<close> and \<open>0.1\<close>: equal as decimals, one unit in the last place apart as binary64
  numbers.
\<close>

lemma round_3_10: "round_binary64 (3 / 10) = Some (5404319552844595 / 18014398509481984)"
  by (subst round_binary64_exponent [where e = "- 2"])
     (simp_all add: round_eval)

lemma round_1_10: "round_binary64 (1 / 10) = Some (3602879701896397 / 36028797018963968)"
  by (subst round_binary64_exponent [where e = "- 4"])
     (simp_all add: round_eval)

lemma round_quotient:
  "round_binary64 (5404319552844595 / 54043195528445952)
     = Some (7205759403792793 / 72057594037927936)"
  by (subst round_binary64_exponent [where e = "- 4"])
     (simp_all add: round_eval)

lemma parseFloat_03: "parseFloat (str ''0.3'') = Finite False (5404319552844595 / 18014398509481984)"
  by (simp add: parse_eval to_number_def round_3_10 del: to_number_numeral)

lemma parseFloat_01: "parseFloat (str ''0.1'') = Finite False (3602879701896397 / 36028797018963968)"
  by (simp add: parse_eval to_number_def round_1_10)

lemma parseInt_3: "parseInt (str ''3'') 0 = Finite False 3"
  by (simp add: parse_eval)

lemma no_tolerance:
  "\<not> number_equal
       (number_divide (parseFloat (str ''0.3'')) (parseInt (str ''3'') 0))
       (parseFloat (str ''0.1''))"
  by (simp add: parseFloat_03 parseFloat_01 parseInt_3 to_number_def round_quotient)

section \<open>validateInstallments compares exactly\<close>

lemma example_installments [simp]:
  "ICSVData.vlTotal (d\<lparr> ICSVData.vlTotal := t, ICSVData.qtPrestacoes := n, ICSVData.vlPresta := p \<rparr>) = t"
  "ICSVData.qtPrestacoes (d\<lparr> ICSVData.vlTotal := t, ICSVData.qtPrestacoes := n, ICSVData.vlPresta := p \<rparr>) = n"
  "ICSVData.vlPresta (d\<lparr> ICSVData.vlTotal := t, ICSVData.qtPrestacoes := n, ICSVData.vlPresta := p \<rparr>) = p"
  by simp_all

lemma installments_1000_10_100:
  "validateInstallments
     (d\<lparr> ICSVData.vlTotal := str ''1000.00'', ICSVData.qtPrestacoes := str ''10'',
         ICSVData.vlPresta := str ''100.00'' \<rparr>)"
  by (simp add: validateInstallments_def parseFloat_1000 parseFloat_100 parseInt_10
      to_number_numeral)

lemma installments_1000_10_99:
  "\<not> validateInstallments
     (d\<lparr> ICSVData.vlTotal := str ''1000.00'', ICSVData.qtPrestacoes := str ''10'',
         ICSVData.vlPresta := str ''99.00'' \<rparr>)"
  by (simp add: validateInstallments_def parseFloat_1000 parseFloat_99 parseInt_10
      to_number_numeral)

lemma installments_03_3_01:
  "\<not> validateInstallments
     (d\<lparr> ICSVData.vlTotal := str ''0.3'', ICSVData.qtPrestacoes := str ''3'',
         ICSVData.vlPresta := str ''0.1'' \<rparr>)"
  using no_tolerance by (simp add: validateInstallments_def)

lemma proccess_1000_10_99:
  "proccess cents
     (example_row\<lparr> ICSVData.vlTotal := str ''1000.00'', ICSVData.qtPrestacoes := str ''10'',
         ICSVData.vlPresta := str ''99.00'' \<rparr>) s
   = rejected (str ''Invalid Installments'')
       (example_row\<lparr> ICSVData.vlTotal := str ''1000.00'', ICSVData.qtPrestacoes := str ''10'',
           ICSVData.vlPresta := str ''99.00'' \<rparr>) s"
proof -
  let ?d = "example_row\<lparr> ICSVData.vlTotal := str ''1000.00'', ICSVData.qtPrestacoes := str ''10'',
      ICSVData.vlPresta := str ''99.00'' \<rparr>"
  have g: "passes_gate ?d"
    by (simp add: passes_gate_def replace_non_digits_def str_def is_digit_def)
  have c: "validateCPF (ICSVData.nrCpfCnpj ?d)"
    using cpf_11144477735 by simp
  have l: "length (ICSVData.nrCpfCnpj ?d) \<noteq> 14"
    by (simp add: str_def)
  from g c l installments_1000_10_99 [of example_row] show ?thesis
    by (simp add: proccess_cases)
qed

section \<open>The check digit arithmetic agrees with parseInt\<close>

text \<open>
  The check digit functions read one code unit at a time with \<open>parseInt_unit\<close>. It is
  \<open>parseInt\<close>, called without a radix, on the string of that one code unit.
\<close>

lemma white_not_digit: "is_white c \<Longrightarrow> \<not> is_digit c"
  by (auto simp: is_white_def is_digit_def) (simp add: word_le_nat_alt)

lemma radix_10_digit: "is_radix_digit 10 c \<longleftrightarrow> is_digit c"
  by (auto simp: is_radix_digit_def radix_digit_value_def is_digit_unat word_le_nat_alt)

lemma parseInt_one_unit:
  "parseInt [c] 0 = (case parseInt_unit c of None \<Rightarrow> NaN | Some n \<Rightarrow> Finite False (of_nat n))"
proof (cases "is_digit c")
  case True
  then have nw: "\<not> is_white c"
    using white_not_digit by blast
  from True have ns: "c \<noteq> 0x2B" "c \<noteq> 0x2D"
    by (auto simp: is_digit_def)
  from True have v: "radix_digit_value c = digit_value c"
    by (simp add: radix_digit_value_def digit_value_def)
  from True have "digit_value c < 10"
    by (simp add: digit_value_def is_digit_unat) arith
  then have small: "digit_value c < 2 ^ 53"
    by simp
  show ?thesis
    using True nw ns
    by (simp add: parseInt_def parseInt_unit_def Let_def is_negative_def drop_sign_def
        has_sign_def radix_10_digit v to_number_nat [OF small])
next
  case False
  then show ?thesis
    by (simp add: parseInt_def parseInt_unit_def Let_def is_negative_def drop_sign_def
        has_sign_def radix_10_digit)
qed

section \<open>The parsers on decimal strings\<close>

lemma decimal_value_snoc: "decimal_value (ds @ [c]) = 10 * decimal_value ds + digit_value c"
  by (simp add: decimal_value_def)

lemma positional_value_snoc:
  "positional_value (ds @ [c]) = 10 * positional_value ds + digit_value c"
proof -
  have "(\<Sum>i<length ds. digit_value ((ds @ [c]) ! i) * 10 ^ (length ds - i))
      = (\<Sum>i<length ds. 10 * (digit_value (ds ! i) * 10 ^ (length ds - 1 - i)))"
  proof (rule sum.cong)
    fix i assume "i \<in> {..<length ds}"
    then have i: "i < length ds" by simp
    then have "length ds - i = Suc (length ds - 1 - i)" by simp
    with i show "digit_value ((ds @ [c]) ! i) * 10 ^ (length ds - i)
        = 10 * (digit_value (ds ! i) * 10 ^ (length ds - 1 - i))"
      by (simp add: nth_append)
  qed simp
  then show ?thesis
    by (simp add: positional_value_def sum_distrib_left)
qed

lemma decimal_value_positional: "decimal_value ds = positional_value ds"
proof (induction ds rule: rev_induct)
  case Nil
  show ?case by (simp add: decimal_value_def positional_value_def)
next
  case (snoc c ds)
  then show ?case by (simp only: decimal_value_snoc positional_value_snoc)
qed

lemma decimal_value_append:
  "decimal_value (a @ b) = decimal_value a * 10 ^ length b + decimal_value b"
proof (induction b rule: rev_induct)
  case Nil
  show ?case by (simp add: decimal_value_def)
next
  case (snoc c b)
  have "decimal_value (a @ b @ [c]) = 10 * decimal_value (a @ b) + digit_value c"
    using decimal_value_snoc [of "a @ b" c] by simp
  with snoc show ?case
    by (simp add: decimal_value_snoc algebra_simps)
qed

lemma radix_digit_value_digit: "is_digit c \<Longrightarrow> radix_digit_value c = digit_value c"
  by (simp add: radix_digit_value_def digit_value_def)

lemma plain_start_trim:
  assumes "plain_start s"
  shows "dropWhile is_white s = s" and "\<not> is_negative s" and "drop_sign s = s"
    and "take 8 s \<noteq> str ''Infinity''"
proof -
  from assms obtain c cs where s: "s = c # cs" and c: "is_digit c \<or> c = 0x2E"
    by (cases s) (auto simp: plain_start_def)
  have dot: "\<not> is_white 0x2E"
    by (simp add: is_white_def)
  from c have nw: "\<not> is_white c"
    using white_not_digit dot by blast
  from c have ns: "c \<noteq> 0x2B" "c \<noteq> 0x2D" "c \<noteq> 0x49"
    by (auto simp: is_digit_def)
  show "dropWhile is_white s = s" using nw by (simp add: s)
  show "\<not> is_negative s" using ns by (simp add: s is_negative_def)
  show "drop_sign s = s" using ns by (simp add: s drop_sign_def has_sign_def)
  show "take 8 s \<noteq> str ''Infinity''" using ns by (simp add: s str_def)
qed

lemma digits_split:
  assumes "list_all is_digit ds" and "\<not> is_digit c"
  shows "takeWhile is_digit (ds @ c # rest) = ds" and "dropWhile is_digit (ds @ c # rest) = c # rest"
  using assms by (simp_all add: list_all_iff takeWhile_append2 dropWhile_append2)

lemma digits_whole:
  assumes "list_all is_digit ds"
  shows "takeWhile is_digit ds = ds" and "dropWhile is_digit ds = []"
  using assms by (simp_all add: list_all_iff)

lemma dot_not_digit: "\<not> is_digit 0x2E"
  by (simp add: is_digit_def)

lemma parseFloat_digits:
  assumes "list_all is_digit ti" and "ti \<noteq> []"
  shows "parseFloat ti = to_number False (of_nat (positional_value ti))"
proof -
  from assms have "plain_start ti"
    by (cases ti) (simp_all add: plain_start_def)
  note t = plain_start_trim [OF this]
  show ?thesis
    using assms(2)
    by (simp add: parseFloat_def Let_def t digits_whole [OF assms(1)] exponent_part_def
        pow10_def decimal_value_positional)
qed

lemma parseFloat_decimal:
  assumes "list_all is_digit ti" and "list_all is_digit tf" and "ti \<noteq> [] \<or> tf \<noteq> []"
  shows "parseFloat (ti @ [0x2E] @ tf) =
    to_number False (of_nat (positional_value ti) + of_nat (positional_value tf) / 10 ^ length tf)"
proof -
  define s where "s = ti @ [0x2E] @ tf"
  have "plain_start s"
    using assms(1) by (cases ti) (simp_all add: plain_start_def s_def)
  note t = plain_start_trim [OF this]
  have sp: "takeWhile is_digit s = ti" "dropWhile is_digit s = 0x2E # tf"
    using digits_split [OF assms(1) dot_not_digit, of tf] by (simp_all add: s_def)
  have "(of_nat (decimal_value (ti @ tf)) :: rat) * (1 / 10 ^ length tf)
      = of_nat (decimal_value ti) + of_nat (decimal_value tf) / 10 ^ length tf"
    by (simp add: decimal_value_append field_simps)
  then have v: "(of_nat (decimal_value (ti @ tf)) :: rat) * (1 / 10 ^ length tf)
      = of_nat (positional_value ti) + of_nat (positional_value tf) / 10 ^ length tf"
    by (simp only: decimal_value_positional)
  have p: "pow10 (0 - int (length tf)) = 1 / 10 ^ length tf"
    by (simp add: pow10_def)
  have e: "exponent_part [] = 0"
    by (simp add: exponent_part_def)
  from assms(3) have ne: "(ti = [] \<and> tf = []) = False"
    by simp
  have "parseFloat s =
      to_number False (of_nat (decimal_value (ti @ tf)) * pow10 (0 - int (length tf)))"
    unfolding parseFloat_def Let_def t(1,3) sp
    by (simp add: ne t(2,4) digits_whole [OF assms(2)] e)
  then show ?thesis
    by (simp only: p v s_def)
qed

lemma foldl_radix_10:
  assumes "list_all is_digit ds"
  shows "foldl (\<lambda>n c. 10 * n + radix_digit_value c) a ds
       = foldl (\<lambda>n c. 10 * n + digit_value c) a ds"
  using assms by (induction ds arbitrary: a) (simp_all add: radix_digit_value_digit)

lemma parseInt_digits:
  assumes "list_all is_digit cnt" and "cnt \<noteq> []"
  shows "parseInt cnt 0 = to_number False (of_nat (positional_value cnt))"
proof -
  from assms have "plain_start cnt"
    by (cases cnt) (simp_all add: plain_start_def)
  note t = plain_start_trim [OF this]
  have x: "\<not> is_digit 0x78" "\<not> is_digit 0x58"
    by (simp_all add: is_digit_def)
  have nohex: "take 2 cnt \<noteq> [0x30, 0x78]" "take 2 cnt \<noteq> [0x30, 0x58]"
    using assms(1) x by (cases cnt; cases "tl cnt"; auto)+
  have tw: "takeWhile (is_radix_digit 10) cnt = cnt"
    using assms(1) by (simp add: list_all_iff radix_10_digit)
  show ?thesis
    using assms(2)
    by (simp add: parseInt_def Let_def t nohex tw foldl_radix_10 [OF assms(1)]
        decimal_value_def [symmetric] decimal_value_positional)
qed

lemma parseInt_whole_number:
  assumes "list_all is_digit cnt" and "cnt \<noteq> []" and "\<not> is_digit c"
    and "c \<noteq> 0x78" and "c \<noteq> 0x58"
  shows "parseInt (cnt @ c # rest) 0 = parseInt cnt 0"
proof -
  define s where "s = cnt @ c # rest"
  from assms have "plain_start s"
    by (cases cnt) (simp_all add: plain_start_def s_def)
  note t = plain_start_trim [OF this]
  have x: "\<not> is_digit 0x78" "\<not> is_digit 0x58"
    by (simp_all add: is_digit_def)
  have nohex: "take 2 s \<noteq> [0x30, 0x78]" "take 2 s \<noteq> [0x30, 0x58]"
    using assms x unfolding s_def by (cases cnt; cases "tl cnt"; auto)+
  have tw: "takeWhile (is_radix_digit 10) s = cnt"
    using assms(1,3) by (simp add: list_all_iff radix_10_digit takeWhile_append2 s_def)
  have "parseInt s 0 =
      to_number False (of_nat (foldl (\<lambda>n c. 10 * n + radix_digit_value c) 0 cnt))"
    using assms(2) unfolding parseInt_def Let_def t(1,3) by (simp add: t(2) nohex tw)
  then show ?thesis
    using parseInt_digits [OF assms(1,2)]
    by (simp add: foldl_radix_10 [OF assms(1)] decimal_value_def [symmetric]
        decimal_value_positional s_def)
qed

text \<open>White space, the sign, the hexadecimal prefix and the exponent.\<close>

lemma parse_skips_white:
  assumes "is_white w"
  shows "parseInt (w # s) r = parseInt s r" and "parseFloat (w # s) = parseFloat s"
  using assms by (simp_all add: parseInt_def parseFloat_def)

lemma minus_facts:
  "\<not> is_white 0x2D" "is_negative (0x2D # s)" "drop_sign (0x2D # s) = s"
  by (simp_all add: is_white_def is_negative_def drop_sign_def has_sign_def)

lemma plain_digits:
  assumes "list_all is_digit ds" and "ds \<noteq> []"
  shows "plain_start ds"
  using assms by (cases ds) (simp_all add: plain_start_def)

lemma no_hex_prefix:
  assumes "list_all is_digit ds"
  shows "take 2 ds \<noteq> [0x30, 0x78]" and "take 2 ds \<noteq> [0x30, 0x58]"
proof -
  have x: "\<not> is_digit 0x78" "\<not> is_digit 0x58"
    by (simp_all add: is_digit_def)
  show "take 2 ds \<noteq> [0x30, 0x78]" "take 2 ds \<noteq> [0x30, 0x58]"
    using assms x by (cases ds; cases "tl ds"; auto)+
qed

lemma parseInt_negative:
  assumes "list_all is_digit cnt" and "cnt \<noteq> []"
  shows "parseInt (0x2D # cnt) 0 = to_number True (of_nat (positional_value cnt))"
proof -
  have tw: "takeWhile (is_radix_digit 10) cnt = cnt"
    using assms(1) by (simp add: list_all_iff radix_10_digit)
  show ?thesis
    using assms(2)
    by (simp add: parseInt_def Let_def minus_facts no_hex_prefix [OF assms(1)] tw
        foldl_radix_10 [OF assms(1)] decimal_value_def [symmetric] decimal_value_positional)
qed

lemma parseFloat_negative:
  assumes "list_all is_digit ti" and "ti \<noteq> []"
  shows "parseFloat (0x2D # ti) = to_number True (of_nat (positional_value ti))"
proof -
  note t = plain_start_trim [OF plain_digits [OF assms]]
  have e: "exponent_part [] = 0"
    by (simp add: exponent_part_def)
  have p: "pow10 0 = 1"
    by (simp add: pow10_def)
  show ?thesis
    using assms(2) t(4)
    by (simp add: parseFloat_def Let_def minus_facts digits_whole [OF assms(1)] e p
        decimal_value_positional)
qed

lemma horner_positional:
  fixes R :: nat and f :: "code_unit \<Rightarrow> nat"
  shows "foldl (\<lambda>n c. R * n + f c) 0 ds
    = (\<Sum>i<length ds. f (ds ! i) * R ^ (length ds - 1 - i))"
proof (induction ds rule: rev_induct)
  case Nil
  show ?case by simp
next
  case (snoc c ds)
  have "(\<Sum>i<length ds. f ((ds @ [c]) ! i) * R ^ (length ds - i))
      = (\<Sum>i<length ds. R * (f (ds ! i) * R ^ (length ds - 1 - i)))"
  proof (rule sum.cong)
    fix i assume "i \<in> {..<length ds}"
    then have i: "i < length ds" by simp
    then have "length ds - i = Suc (length ds - 1 - i)" by simp
    with i show "f ((ds @ [c]) ! i) * R ^ (length ds - i)
        = R * (f (ds ! i) * R ^ (length ds - 1 - i))"
      by (simp add: nth_append ac_simps)
  qed simp
  with snoc show ?case
    by (simp add: sum_distrib_left)
qed

lemma parseInt_hex:
  assumes "list_all (is_radix_digit 16) hs" and "hs \<noteq> []"
  shows "parseInt (0x30 # 0x78 # hs) 0 =
    to_number False
      (of_nat (\<Sum>i<length hs. radix_digit_value (hs ! i) * 16 ^ (length hs - 1 - i)))"
proof -
  have w: "\<not> is_white 0x30"
    by (simp add: is_white_def)
  have tw: "takeWhile (is_radix_digit 16) hs = hs"
    using assms(1) by (simp add: list_all_iff)
  show ?thesis
    using assms(2)
    by (simp add: parseInt_def Let_def w is_negative_def drop_sign_def has_sign_def tw
        horner_positional)
qed

lemma parseFloat_exponent:
  assumes "list_all is_digit ti" and "ti \<noteq> []" and "list_all is_digit ex" and "ex \<noteq> []"
  shows "parseFloat (ti @ 0x65 # ex) =
    to_number False (of_nat (positional_value ti) * 10 ^ positional_value ex)"
proof -
  define s where "s = ti @ 0x65 # ex"
  have e_nd: "\<not> is_digit 0x65"
    by (simp add: is_digit_def)
  have "plain_start s"
    using assms(1,2) by (cases ti) (simp_all add: plain_start_def s_def)
  note t = plain_start_trim [OF this]
  have sp: "takeWhile is_digit s = ti" "dropWhile is_digit s = 0x65 # ex"
    using digits_split [OF assms(1) e_nd, of ex] by (simp_all add: s_def)
  note x = plain_start_trim [OF plain_digits [OF assms(3,4)]]
  have ep: "exponent_part (0x65 # ex) = int (positional_value ex)"
    using assms(4)
    by (simp add: exponent_part_def Let_def x digits_whole [OF assms(3)]
        decimal_value_positional)
  have p: "pow10 (int (positional_value ex) - 0) = 10 ^ positional_value ex"
    by (simp add: pow10_def)
  have "parseFloat s =
      to_number False (of_nat (decimal_value ti) * pow10 (int (positional_value ex) - 0))"
    using assms(2)
    unfolding parseFloat_def Let_def t(1,3) sp
    by (simp add: t(2,4) ep)
  then show ?thesis
    by (simp only: p decimal_value_positional s_def)
qed

section \<open>validateInstallments in terms of the rationals\<close>

lemma installments_finite:
  assumes "parseFloat (ICSVData.vlTotal d) = Finite st t"
    and "parseInt (ICSVData.qtPrestacoes d) 0 = Finite sn n" and "n \<noteq> 0"
    and "parseFloat (ICSVData.vlPresta d) = Finite sp p"
  shows "validateInstallments d \<longleftrightarrow>
    round_binary64 (t / n) = Some p \<and> (sp = (st \<noteq> sn) \<or> p = 0)"
  using assms by (auto simp: validateInstallments_def to_number_def split: option.splits)

lemma installments_overflow:
  assumes "parseFloat (ICSVData.vlTotal d) = Finite st t"
    and "parseInt (ICSVData.qtPrestacoes d) 0 = Finite sn n" and "n \<noteq> 0"
    and "parseFloat (ICSVData.vlPresta d) = Infinity sp"
  shows "validateInstallments d \<longleftrightarrow> round_binary64 (t / n) = None \<and> sp = (st \<noteq> sn)"
  using assms by (auto simp: validateInstallments_def to_number_def split: option.splits)

lemma installments_zero_count:
  assumes "parseFloat (ICSVData.vlTotal d) = Finite st t"
    and "parseInt (ICSVData.qtPrestacoes d) 0 = Finite sn 0"
    and "parseFloat (ICSVData.vlPresta d) = Finite sp p"
  shows "\<not> validateInstallments d"
  using assms by (simp add: validateInstallments_def)

lemma number_equal_NaN [simp]: "\<not> number_equal NaN y" "\<not> number_equal x NaN"
  by (cases x; simp)+

lemma number_divide_NaN [simp]: "number_divide x NaN = NaN"
  by (cases x) simp_all

lemma installments_NaN:
  assumes "parseFloat (ICSVData.vlTotal d) = NaN \<or> parseInt (ICSVData.qtPrestacoes d) 0 = NaN
    \<or> parseFloat (ICSVData.vlPresta d) = NaN"
  shows "\<not> validateInstallments d"
  using assms by (auto simp: validateInstallments_def)

text \<open>Decimal strings, digits and a dot, through parsing, division and comparison.\<close>

lemma installments_decimal:
  assumes digits: "list_all is_digit ti" "list_all is_digit tf" "list_all is_digit cnt"
      "list_all is_digit vi" "list_all is_digit vf"
    and nonempty: "ti \<noteq> [] \<or> tf \<noteq> []" "cnt \<noteq> []" "vi \<noteq> [] \<or> vf \<noteq> []"
    and fields: "ICSVData.vlTotal d = ti @ [0x2E] @ tf" "ICSVData.qtPrestacoes d = cnt"
      "ICSVData.vlPresta d = vi @ [0x2E] @ vf"
    and count: "0 < positional_value cnt" "positional_value cnt < 2 ^ 53"
    and total: "round_binary64
        (of_nat (positional_value ti) + of_nat (positional_value tf) / 10 ^ length tf) = Some t"
    and presta: "round_binary64
        (of_nat (positional_value vi) + of_nat (positional_value vf) / 10 ^ length vf) = Some p"
  shows "validateInstallments d \<longleftrightarrow>
    round_binary64 (t / of_nat (positional_value cnt)) = Some p"
proof -
  have a: "parseFloat (ICSVData.vlTotal d) = Finite False t"
    unfolding fields parseFloat_decimal [OF digits(1,2) nonempty(1)]
    by (simp add: to_number_def total)
  have b: "parseInt (ICSVData.qtPrestacoes d) 0 = Finite False (of_nat (positional_value cnt))"
    unfolding fields parseInt_digits [OF digits(3) nonempty(2)]
    by (rule to_number_nat [OF count(2)])
  have c: "parseFloat (ICSVData.vlPresta d) = Finite False p"
    unfolding fields parseFloat_decimal [OF digits(4,5) nonempty(3)]
    by (simp add: to_number_def presta)
  have n: "(of_nat (positional_value cnt) :: rat) \<noteq> 0"
    using count(1) by simp
  show ?thesis
    using installments_finite [OF a b n c] by simp
qed

text \<open>Whole amounts that divide evenly: the check is the equation of the integers.\<close>

lemma installments_whole:
  assumes digits: "list_all is_digit ti" "list_all is_digit cnt" "list_all is_digit vi"
    and nonempty: "ti \<noteq> []" "cnt \<noteq> []" "vi \<noteq> []"
    and fields: "ICSVData.vlTotal d = ti" "ICSVData.qtPrestacoes d = cnt"
      "ICSVData.vlPresta d = vi"
    and small: "positional_value ti < 2 ^ 53" "positional_value cnt < 2 ^ 53"
      "positional_value vi < 2 ^ 53"
    and divides: "0 < positional_value cnt" "positional_value cnt dvd positional_value ti"
  shows "validateInstallments d \<longleftrightarrow>
    positional_value ti = positional_value cnt * positional_value vi"
proof -
  have a: "parseFloat (ICSVData.vlTotal d) = Finite False (of_nat (positional_value ti))"
    unfolding fields parseFloat_digits [OF digits(1) nonempty(1)]
    by (rule to_number_nat [OF small(1)])
  have b: "parseInt (ICSVData.qtPrestacoes d) 0 = Finite False (of_nat (positional_value cnt))"
    unfolding fields parseInt_digits [OF digits(2) nonempty(2)]
    by (rule to_number_nat [OF small(2)])
  have c: "parseFloat (ICSVData.vlPresta d) = Finite False (of_nat (positional_value vi))"
    unfolding fields parseFloat_digits [OF digits(3) nonempty(3)]
    by (rule to_number_nat [OF small(3)])
  have n: "(of_nat (positional_value cnt) :: rat) \<noteq> 0"
    using divides(1) by simp
  from divides obtain k where k: "positional_value ti = positional_value cnt * k"
    by (auto simp: dvd_def)
  with divides(1) small(1) have "k \<le> positional_value ti"
    by simp
  with small(1) have ks: "k < 2 ^ 53"
    by simp
  have q: "(of_nat (positional_value ti) :: rat) / of_nat (positional_value cnt) = of_nat k"
    using n by (simp add: k)
  have "validateInstallments d \<longleftrightarrow> k = positional_value vi"
    using installments_finite [OF a b n c]
    by (simp add: q round_binary64_nat [OF ks])
  also have "\<dots> \<longleftrightarrow> positional_value ti = positional_value cnt * positional_value vi"
    using divides(1) by (simp add: k)
  finally show ?thesis .
qed

lemma round_half_even_error: "\<bar>of_int (round_half_even x) - x\<bar> \<le> 1 / 2"
proof -
  define r where "r = x - of_int \<lfloor>x\<rfloor>"
  have r0: "0 \<le> r" and r1: "r < 1"
    unfolding r_def by linarith+
  have x: "x = of_int \<lfloor>x\<rfloor> + r"
    by (simp add: r_def)
  have "(round_half_even x = \<lfloor>x\<rfloor> \<and> r \<le> 1 / 2) \<or> (round_half_even x = \<lfloor>x\<rfloor> + 1 \<and> 1 / 2 \<le> r)"
    unfolding round_half_even_def Let_def r_def [symmetric] by auto
  then show ?thesis
  proof (elim disjE conjE)
    assume a: "round_half_even x = \<lfloor>x\<rfloor>" and b: "r \<le> 1 / 2"
    have "of_int (round_half_even x) - x = - r"
      unfolding a by (subst (2) x) simp
    with r0 b show ?thesis by simp
  next
    assume a: "round_half_even x = \<lfloor>x\<rfloor> + 1" and b: "1 / 2 \<le> r"
    have "of_int (round_half_even x) - x = 1 - r"
      unfolding a by (subst (2) x) simp
    with r1 b show ?thesis by simp
  qed
qed

lemma round_binary64_error:
  assumes "round_binary64 q = Some r"
  shows "\<bar>r - q\<bar> \<le> two_pow (max (binary_exponent q) (- 1022) - 53)"
proof (cases "q = 0")
  case True
  with assms have "r = 0" by (simp add: round_binary64_def)
  with True show ?thesis using two_pow_pos [of "max (binary_exponent 0) (- 1022) - 53"]
    by simp
next
  case False
  define e where "e = max (binary_exponent q) (- 1022)"
  define ulp where "ulp = two_pow (e - 52)"
  have pos: "0 < ulp" by (simp add: ulp_def two_pow_pos)
  from assms False have r: "r = of_int (round_half_even (q / ulp)) * ulp"
    by (simp add: round_binary64_def Let_def e_def ulp_def split: if_splits)
  have "r - q = (of_int (round_half_even (q / ulp)) - q / ulp) * ulp"
    using pos by (simp add: r field_simps)
  then have "\<bar>r - q\<bar> = \<bar>of_int (round_half_even (q / ulp)) - q / ulp\<bar> * ulp"
    using pos by (simp add: abs_mult)
  also have "\<dots> \<le> 1 / 2 * ulp"
    using round_half_even_error [of "q / ulp"] pos by (intro mult_right_mono) simp_all
  also have "\<dots> = two_pow (e - 53)"
    using two_pow_add [of "e - 53" 1] by (simp add: ulp_def two_pow_def [of 1])
  finally show ?thesis by (simp add: e_def)
qed

text \<open>
  Claim C5. \<open>validateInstallments\<close> accepts a record exactly when \<open>parseFloat\<close> of the
  total, divided by \<open>parseInt\<close> of the installment count, is \<open>===\<close> to \<open>parseFloat\<close> of
  the installment value, with no tolerance:
  \<^item> a field that parses to \<open>NaN\<close> rejects the record;
  \<^item> with three finite parses \<open>t\<close>, \<open>n\<close> and \<open>p\<close>, the record is accepted exactly when
    \<open>n\<close> is not zero, the quotient \<open>t / n\<close> of the rationals rounds to \<open>p\<close> in binary64,
    and the signs agree (or \<open>p\<close> is zero); an accepted \<open>p\<close> is then within half a unit
    in the last place of \<open>t / n\<close>;
  \<^item> against an infinite installment value the record is accepted exactly when the
    quotient overflows with that sign;
  \<^item> the decimal parse of digits, a dot and digits is the rounding of the number they
    denote, the whole number parse of digits is the number they denote, and it stops at
    the first code unit that is no digit; both parsers skip leading white space and
    take a minus sign, \<open>parseInt\<close> without a radix reads hexadecimal digits after \<open>0x\<close>,
    and \<open>parseFloat\<close> an exponent after \<open>e\<close>;
  \<^item> so, for decimal strings, the record is accepted exactly when the rounded total
    divided by the count rounds to the rounded installment value, and for whole amounts
    below \<open>2^53\<close> with a count that divides the total, exactly when total = count *
    installment.
  Total \<open>1000.00\<close>, count \<open>10\<close> and installment \<open>100.00\<close> are accepted; with installment
  \<open>99.00\<close> the record is rejected and \<open>proccess\<close> records \<open>Invalid Installments\<close> for
  it; total \<open>0.3\<close>, count \<open>3\<close> and installment \<open>0.1\<close> are rejected, one unit in the last
  place apart.
\<close>

theorem validateInstallments_exact:
  "validateInstallments d =
     number_equal
       (number_divide (parseFloat (ICSVData.vlTotal d)) (parseInt (ICSVData.qtPrestacoes d) 0))
       (parseFloat (ICSVData.vlPresta d)) \<and>
   (parseFloat (ICSVData.vlTotal d) = NaN \<or> parseInt (ICSVData.qtPrestacoes d) 0 = NaN \<or>
    parseFloat (ICSVData.vlPresta d) = NaN \<longrightarrow> \<not> validateInstallments d) \<and>
   (parseFloat (ICSVData.vlTotal d) = Finite st t \<and>
    parseInt (ICSVData.qtPrestacoes d) 0 = Finite sn n \<and>
    parseFloat (ICSVData.vlPresta d) = Finite sp p \<longrightarrow>
      (validateInstallments d \<longleftrightarrow>
         n \<noteq> 0 \<and> round_binary64 (t / n) = Some p \<and> (sp = (st \<noteq> sn) \<or> p = 0))) \<and>
   (parseFloat (ICSVData.vlTotal d) = Finite st t \<and>
    parseInt (ICSVData.qtPrestacoes d) 0 = Finite sn n \<and>
    parseFloat (ICSVData.vlPresta d) = Finite sp p \<and> validateInstallments d \<longrightarrow>
      \<bar>p - t / n\<bar> \<le> two_pow (max (binary_exponent (t / n)) (- 1022) - 53)) \<and>
   (parseFloat (ICSVData.vlTotal d) = Finite st t \<and>
    parseInt (ICSVData.qtPrestacoes d) 0 = Finite sn n \<and> n \<noteq> 0 \<and>
    parseFloat (ICSVData.vlPresta d) = Infinity sp \<longrightarrow>
      (validateInstallments d \<longleftrightarrow> round_binary64 (t / n) = None \<and> sp = (st \<noteq> sn))) \<and>
   (list_all is_digit ti \<and> list_all is_digit tf \<and> (ti \<noteq> [] \<or> tf \<noteq> []) \<longrightarrow>
      parseFloat (ti @ [0x2E] @ tf) =
        to_number False
          (of_nat (positional_value ti) + of_nat (positional_value tf) / 10 ^ length tf)) \<and>
   (list_all is_digit ti \<and> ti \<noteq> [] \<longrightarrow>
      parseFloat ti = to_number False (of_nat (positional_value ti))) \<and>
   (list_all is_digit cnt \<and> cnt \<noteq> [] \<longrightarrow>
      parseInt cnt 0 = to_number False (of_nat (positional_value cnt))) \<and>
   (list_all is_digit cnt \<and> cnt \<noteq> [] \<and> \<not> is_digit c \<and> c \<noteq> 0x78 \<and> c \<noteq> 0x58 \<longrightarrow>
      parseInt (cnt @ c # rest) 0 = parseInt cnt 0) \<and>
   (list_all is_digit ti \<and> list_all is_digit tf \<and> list_all is_digit cnt \<and>
    list_all is_digit vi \<and> list_all is_digit vf \<and>
    (ti \<noteq> [] \<or> tf \<noteq> []) \<and> cnt \<noteq> [] \<and> (vi \<noteq> [] \<or> vf \<noteq> []) \<and>
    ICSVData.vlTotal d = ti @ [0x2E] @ tf \<and> ICSVData.qtPrestacoes d = cnt \<and>
    ICSVData.vlPresta d = vi @ [0x2E] @ vf \<and>
    0 < positional_value cnt \<and> positional_value cnt < 2 ^ 53 \<and>
    round_binary64
      (of_nat (positional_value ti) + of_nat (positional_value tf) / 10 ^ length tf) = Some t \<and>
    round_binary64
      (of_nat (positional_value vi) + of_nat (positional_value vf) / 10 ^ length vf) = Some p
    \<longrightarrow>
      (validateInstallments d \<longleftrightarrow>
         round_binary64 (t / of_nat (positional_value cnt)) = Some p)) \<and>
   (list_all is_digit ti \<and> list_all is_digit cnt \<and> list_all is_digit vi \<and>
    ti \<noteq> [] \<and> cnt \<noteq> [] \<and> vi \<noteq> [] \<and>
    ICSVData.vlTotal d = ti \<and> ICSVData.qtPrestacoes d = cnt \<and> ICSVData.vlPresta d = vi \<and>
    positional_value ti < 2 ^ 53 \<and> positional_value cnt < 2 ^ 53 \<and>
    positional_value vi < 2 ^ 53 \<and>
    0 < positional_value cnt \<and> positional_value cnt dvd positional_value ti \<longrightarrow>
      (validateInstallments d \<longleftrightarrow>
         positional_value ti = positional_value cnt * positional_value vi)) \<and>
   (is_white w \<longrightarrow> parseInt (w # u) 0 = parseInt u 0 \<and> parseFloat (w # u) = parseFloat u) \<and>
   (list_all is_digit cnt \<and> cnt \<noteq> [] \<longrightarrow>
      parseInt (0x2D # cnt) 0 = to_number True (of_nat (positional_value cnt))) \<and>
   (list_all is_digit ti \<and> ti \<noteq> [] \<longrightarrow>
      parseFloat (0x2D # ti) = to_number True (of_nat (positional_value ti))) \<and>
   (list_all (is_radix_digit 16) hs \<and> hs \<noteq> [] \<longrightarrow>
      parseInt (0x30 # 0x78 # hs) 0 =
        to_number False
          (of_nat (\<Sum>i<length hs. radix_digit_value (hs ! i) * 16 ^ (length hs - 1 - i)))) \<and>
   (list_all is_digit ti \<and> ti \<noteq> [] \<and> list_all is_digit ex \<and> ex \<noteq> [] \<longrightarrow>
      parseFloat (ti @ 0x65 # ex) =
        to_number False (of_nat (positional_value ti) * 10 ^ positional_value ex)) \<and>
   validateInstallments
     (example_row\<lparr> ICSVData.vlTotal := str ''1000.00'', ICSVData.qtPrestacoes := str ''10'',
         ICSVData.vlPresta := str ''100.00'' \<rparr>) \<and>
   \<not> validateInstallments
     (example_row\<lparr> ICSVData.vlTotal := str ''1000.00'', ICSVData.qtPrestacoes := str ''10'',
         ICSVData.vlPresta := str ''99.00'' \<rparr>) \<and>
   proccess cents
     (example_row\<lparr> ICSVData.vlTotal := str ''1000.00'', ICSVData.qtPrestacoes := str ''10'',
         ICSVData.vlPresta := str ''99.00'' \<rparr>) s
   = rejected (str ''Invalid Installments'')
       (example_row\<lparr> ICSVData.vlTotal := str ''1000.00'', ICSVData.qtPrestacoes := str ''10'',
           ICSVData.vlPresta := str ''99.00'' \<rparr>) s \<and>
   \<not> validateInstallments
     (example_row\<lparr> ICSVData.vlTotal := str ''0.3'', ICSVData.qtPrestacoes := str ''3'',
         ICSVData.vlPresta := str ''0.1'' \<rparr>)"
proof -
  have c1: "validateInstallments d =
     number_equal
       (number_divide (parseFloat (ICSVData.vlTotal d)) (parseInt (ICSVData.qtPrestacoes d) 0))
       (parseFloat (ICSVData.vlPresta d))"
    by (simp only: validateInstallments_def)
  have c2: "parseFloat (ICSVData.vlTotal d) = NaN \<or> parseInt (ICSVData.qtPrestacoes d) 0 = NaN \<or>
    parseFloat (ICSVData.vlPresta d) = NaN \<longrightarrow> \<not> validateInstallments d"
    using installments_NaN [of d] by blast
  have c3: "parseFloat (ICSVData.vlTotal d) = Finite st t \<and>
    parseInt (ICSVData.qtPrestacoes d) 0 = Finite sn n \<and>
    parseFloat (ICSVData.vlPresta d) = Finite sp p \<longrightarrow>
      (validateInstallments d \<longleftrightarrow>
         n \<noteq> 0 \<and> round_binary64 (t / n) = Some p \<and> (sp = (st \<noteq> sn) \<or> p = 0))"
    using installments_finite [of d st t sn n sp p] installments_zero_count [of d st t sn sp p]
    by blast
  have c4: "parseFloat (ICSVData.vlTotal d) = Finite st t \<and>
    parseInt (ICSVData.qtPrestacoes d) 0 = Finite sn n \<and>
    parseFloat (ICSVData.vlPresta d) = Finite sp p \<and> validateInstallments d \<longrightarrow>
      \<bar>p - t / n\<bar> \<le> two_pow (max (binary_exponent (t / n)) (- 1022) - 53)"
    using c3 round_binary64_error [of "t / n" p] by blast
  have c5: "parseFloat (ICSVData.vlTotal d) = Finite st t \<and>
    parseInt (ICSVData.qtPrestacoes d) 0 = Finite sn n \<and> n \<noteq> 0 \<and>
    parseFloat (ICSVData.vlPresta d) = Infinity sp \<longrightarrow>
      (validateInstallments d \<longleftrightarrow> round_binary64 (t / n) = None \<and> sp = (st \<noteq> sn))"
    using installments_overflow [of d st t sn n sp] by blast
  have c6: "list_all is_digit ti \<and> list_all is_digit tf \<and> (ti \<noteq> [] \<or> tf \<noteq> []) \<longrightarrow>
      parseFloat (ti @ [0x2E] @ tf) =
        to_number False
          (of_nat (positional_value ti) + of_nat (positional_value tf) / 10 ^ length tf)"
    by (intro impI, elim conjE) (rule parseFloat_decimal [of ti tf]; assumption)
  have c7: "list_all is_digit ti \<and> ti \<noteq> [] \<longrightarrow>
      parseFloat ti = to_number False (of_nat (positional_value ti))"
    using parseFloat_digits [of ti] by blast
  have c8: "list_all is_digit cnt \<and> cnt \<noteq> [] \<longrightarrow>
      parseInt cnt 0 = to_number False (of_nat (positional_value cnt))"
    using parseInt_digits [of cnt] by blast
  have c9: "list_all is_digit cnt \<and> cnt \<noteq> [] \<and> \<not> is_digit c \<and> c \<noteq> 0x78 \<and> c \<noteq> 0x58 \<longrightarrow>
      parseInt (cnt @ c # rest) 0 = parseInt cnt 0"
    by (intro impI, elim conjE) (rule parseInt_whole_number [of cnt c rest]; assumption)
  have c10: "list_all is_digit ti \<and> list_all is_digit tf \<and> list_all is_digit cnt \<and>
    list_all is_digit vi \<and> list_all is_digit vf \<and>
    (ti \<noteq> [] \<or> tf \<noteq> []) \<and> cnt \<noteq> [] \<and> (vi \<noteq> [] \<or> vf \<noteq> []) \<and>
    ICSVData.vlTotal d = ti @ [0x2E] @ tf \<and> ICSVData.qtPrestacoes d = cnt \<and>
    ICSVData.vlPresta d = vi @ [0x2E] @ vf \<and>
    0 < positional_value cnt \<and> positional_value cnt < 2 ^ 53 \<and>
    round_binary64
      (of_nat (positional_value ti) + of_nat (positional_value tf) / 10 ^ length tf) = Some t \<and>
    round_binary64
      (of_nat (positional_value vi) + of_nat (positional_value vf) / 10 ^ length vf) = Some p
    \<longrightarrow>
      (validateInstallments d \<longleftrightarrow>
         round_binary64 (t / of_nat (positional_value cnt)) = Some p)"
    by (intro impI, elim conjE) (rule installments_decimal [of ti tf cnt vi vf d t p]; assumption)
  have c11: "list_all is_digit ti \<and> list_all is_digit cnt \<and> list_all is_digit vi \<and>
    ti \<noteq> [] \<and> cnt \<noteq> [] \<and> vi \<noteq> [] \<and>
    ICSVData.vlTotal d = ti \<and> ICSVData.qtPrestacoes d = cnt \<and> ICSVData.vlPresta d = vi \<and>
    positional_value ti < 2 ^ 53 \<and> positional_value cnt < 2 ^ 53 \<and>
    positional_value vi < 2 ^ 53 \<and>
    0 < positional_value cnt \<and> positional_value cnt dvd positional_value ti \<longrightarrow>
      (validateInstallments d \<longleftrightarrow>
         positional_value ti = positional_value cnt * positional_value vi)"
    by (intro impI, elim conjE) (rule installments_whole [of ti cnt vi d]; assumption)
  have c12: "is_white w \<longrightarrow>
      parseInt (w # u) 0 = parseInt u 0 \<and> parseFloat (w # u) = parseFloat u"
    using parse_skips_white(1) [of w u 0] parse_skips_white(2) [of w u] by blast
  have c13: "list_all is_digit cnt \<and> cnt \<noteq> [] \<longrightarrow>
      parseInt (0x2D # cnt) 0 = to_number True (of_nat (positional_value cnt))"
    using parseInt_negative [of cnt] by blast
  have c14: "list_all is_digit ti \<and> ti \<noteq> [] \<longrightarrow>
      parseFloat (0x2D # ti) = to_number True (of_nat (positional_value ti))"
    using parseFloat_negative [of ti] by blast
  have c15: "list_all (is_radix_digit 16) hs \<and> hs \<noteq> [] \<longrightarrow>
      parseInt (0x30 # 0x78 # hs) 0 =
        to_number False
          (of_nat (\<Sum>i<length hs. radix_digit_value (hs ! i) * 16 ^ (length hs - 1 - i)))"
    using parseInt_hex [of hs] by blast
  have c16: "list_all is_digit ti \<and> ti \<noteq> [] \<and> list_all is_digit ex \<and> ex \<noteq> [] \<longrightarrow>
      parseFloat (ti @ 0x65 # ex) =
        to_number False (of_nat (positional_value ti) * 10 ^ positional_value ex)"
    by (intro impI, elim conjE) (rule parseFloat_exponent [of ti ex]; assumption)
  note closed = installments_1000_10_100 [of example_row] installments_1000_10_99 [of example_row]
    proccess_1000_10_99 [of cents s] installments_03_3_01 [of example_row]
  show ?thesis
    by (intro conjI)
      (rule c1, rule c2, rule c3, rule c4, rule c5, rule c6, rule c7, rule c8, rule c9,
        rule c10, rule c11, rule c12, rule c13, rule c14, rule c15, rule c16,
        rule closed(1), rule closed(2), rule closed(3), rule closed(4))
qed

theorem validateInstallments_exact_witness:
  "round_binary64 (1000 / 10) = Some 100 \<and>
   validateInstallments
     (example_row\<lparr> ICSVData.vlTotal := str ''1000.00'', ICSVData.qtPrestacoes := str ''10'',
         ICSVData.vlPresta := str ''100.00'' \<rparr>) \<and>
   positional_value (str ''10'') = 10"
proof -
  let ?d = "example_row\<lparr> ICSVData.vlTotal := str ''1000.00'', ICSVData.qtPrestacoes := str ''10'',
      ICSVData.vlPresta := str ''100.00'' \<rparr>"
  have pv: "positional_value (str ''1000'') = 1000" "positional_value (str ''00'') = 0"
    "positional_value (str ''10'') = 10" "positional_value (str ''100'') = 100"
    by (simp_all add: decimal_value_positional [symmetric] decimal_value_def str_def
        digit_value_def)
  have dg: "list_all is_digit (str ''1000'')" "list_all is_digit (str ''00'')"
    "list_all is_digit (str ''10'')" "list_all is_digit (str ''100'')"
    by (simp_all add: str_def is_digit_def)
  have ne: "str ''1000'' \<noteq> [] \<or> str ''00'' \<noteq> []" "str ''10'' \<noteq> []"
    "str ''100'' \<noteq> [] \<or> str ''00'' \<noteq> []"
    by (simp_all add: str_def)
  have f: "ICSVData.vlTotal ?d = str ''1000'' @ [0x2E] @ str ''00''"
    "ICSVData.qtPrestacoes ?d = str ''10''"
    "ICSVData.vlPresta ?d = str ''100'' @ [0x2E] @ str ''00''"
    by (simp_all add: str_def)
  have cn: "0 < positional_value (str ''10'')" "positional_value (str ''10'') < 2 ^ 53"
    by (simp_all add: pv)
  have r1: "round_binary64 (of_nat (positional_value (str ''1000''))
      + of_nat (positional_value (str ''00'')) / 10 ^ length (str ''00'')) = Some 1000"
    using round_binary64_nat [of 1000] by (simp add: pv)
  have r2: "round_binary64 (of_nat (positional_value (str ''100''))
      + of_nat (positional_value (str ''00'')) / 10 ^ length (str ''00'')) = Some 100"
    using round_binary64_nat [of 100] by (simp add: pv)
  have q: "round_binary64 (1000 / 10) = Some 100"
    using round_binary64_nat [of 100] by simp
  have all: "list_all is_digit (str ''1000'') \<and> list_all is_digit (str ''00'') \<and>
    list_all is_digit (str ''10'') \<and> list_all is_digit (str ''100'') \<and>
    list_all is_digit (str ''00'') \<and>
    (str ''1000'' \<noteq> [] \<or> str ''00'' \<noteq> []) \<and> str ''10'' \<noteq> [] \<and>
    (str ''100'' \<noteq> [] \<or> str ''00'' \<noteq> []) \<and>
    ICSVData.vlTotal ?d = str ''1000'' @ [0x2E] @ str ''00'' \<and>
    ICSVData.qtPrestacoes ?d = str ''10'' \<and>
    ICSVData.vlPresta ?d = str ''100'' @ [0x2E] @ str ''00'' \<and>
    0 < positional_value (str ''10'') \<and> positional_value (str ''10'') < 2 ^ 53 \<and>
    round_binary64 (of_nat (positional_value (str ''1000''))
      + of_nat (positional_value (str ''00'')) / 10 ^ length (str ''00'')) = Some 1000 \<and>
    round_binary64 (of_nat (positional_value (str ''100''))
      + of_nat (positional_value (str ''00'')) / 10 ^ length (str ''00'')) = Some 100"
    by (intro conjI) (rule dg ne f cn r1 r2)+
  have "validateInstallments ?d \<longleftrightarrow>
      round_binary64 (1000 / of_nat (positional_value (str ''10''))) = Some 100"
    by (rule validateInstallments_exact
      [where d = ?d and t = 1000 and p = 100 and ti = "str ''1000''" and tf = "str ''00''"
        and cnt = "str ''10''" and vi = "str ''100''" and vf = "str ''00''",
        THEN conjunct2, THEN conjunct2, THEN conjunct2, THEN conjunct2, THEN conjunct2,
        THEN conjunct2, THEN conjunct2, THEN conjunct2, THEN conjunct2, THEN conjunct1,
        THEN mp, OF all])
  with q pv(3) show ?thesis
    by simp
qed

end
